theory Spec2Isabelle
  imports Main "HOL-Library.Sublist"
begin

section \<open>Python string and path helpers used by the scrapers\<close>

text \<open>
  Strings are \<open>char list\<close>, a character standing for one Python character with a code
  point below 256. On that range \<open>str.lower\<close>, \<open>str.strip\<close> and the class \<open>\w\<close>
  of \<open>re\<close> are modelled as Python has them: besides the ASCII letters, the capital
  letters from 192 to 222 (without the multiplication sign, 215) have a lower case, 32
  further up.
\<close>

type_synonym url = string

definition lower_char :: "char \<Rightarrow> char" where
  "lower_char c =
     (let n = (of_char c :: nat) in
      if (65 \<le> n \<and> n \<le> 90) \<or> (192 \<le> n \<and> n \<le> 222 \<and> n \<noteq> 215) then char_of (n + 32)
      else c)"

definition lower :: "string \<Rightarrow> string" where
  "lower s = map lower_char s"

text \<open>\<open>s.endswith(t)\<close>.\<close>

definition endswith :: "string \<Rightarrow> string \<Rightarrow> bool" where
  "endswith s t = (length t \<le> length s \<and> drop (length s - length t) s = t)"

text \<open>\<open>t in s\<close> on strings: \<open>t\<close> occurs as a contiguous block of \<open>s\<close>.\<close>

fun contains :: "string \<Rightarrow> string \<Rightarrow> bool" where
  "contains t [] = (t = [])"
| "contains t (c # cs) = (prefix t (c # cs) \<or> contains t cs)"

text \<open>\<open>s.split("?")[0]\<close>: everything before the first question mark.\<close>

definition split_query :: "string \<Rightarrow> string" where
  "split_query s = takeWhile (\<lambda>c. c \<noteq> CHR ''?'') s"

text \<open>\<open>os.path.basename(p)\<close>: everything after the last slash.\<close>

definition basename :: "string \<Rightarrow> string" where
  "basename p = rev (takeWhile (\<lambda>c. c \<noteq> CHR ''/'') (rev p))"

text \<open>\<open>os.path.join(d, f)\<close> for a directory name without a trailing slash: an absolute
  \<open>f\<close> replaces \<open>d\<close>.\<close>

definition path_join :: "string \<Rightarrow> string \<Rightarrow> string" where
  "path_join d f = (if f \<noteq> [] \<and> hd f = CHR ''/'' then f else d @ ''/'' @ f)"

text \<open>\<open>sep.join(xs)\<close>.\<close>

fun join :: "string \<Rightarrow> string list \<Rightarrow> string" where
  "join sep [] = []"
| "join sep [x] = x"
| "join sep (x # y # ys) = x @ sep @ join sep (y # ys)"

definition OUT_DIR :: string where "OUT_DIR = ''output''"
definition PDF_DIR :: string where "PDF_DIR = ''pdfs''"


section \<open>Narrative mode: \<open>find_main_content\<close> (ocac\_scraper.py)\<close>

text \<open>
  The parsed document is given by what the code asks of it: \<open>select sel\<close> is the list
  \<open>soup.select(sel)\<close> in document order and \<open>get_text cand\<close> is
  \<open>cand.get_text(" ", strip=True)\<close>.
\<close>

definition selectors :: "string list" where
  "selectors =
     [''div.node__content'',
      ''article.node div.node__content'',
      ''div.text-content.clearfix.field.field--name-body'',
      ''div.field--name-body'',
      ''div.region.region--content'']"

text \<open>The loop state \<open>(best, best_len, best_sel)\<close> and the body of the inner loop.\<close>

type_synonym 'e best = "'e option \<times> nat \<times> string option"

definition consider_cand :: "('e \<Rightarrow> string) \<Rightarrow> string \<Rightarrow> 'e \<Rightarrow> 'e best \<Rightarrow> 'e best" where
  "consider_cand get_text sel cand b =
     (case b of (best, best_len, best_sel) \<Rightarrow>
        let text = get_text cand in
        if text \<noteq> [] \<and> length text > best_len
        then (Some cand, length text, Some sel)
        else (best, best_len, best_sel))"

definition find_main_content :: "(string \<Rightarrow> 'e list) \<Rightarrow> ('e \<Rightarrow> string) \<Rightarrow> 'e option" where
  "find_main_content select get_text =
     fst (fold (\<lambda>sel b. fold (consider_cand get_text sel) (select sel) b) selectors
            (None, 0, None))"

text \<open>All candidates in the order the two nested loops meet them.\<close>

definition candidates :: "(string \<Rightarrow> 'e list) \<Rightarrow> 'e list" where
  "candidates select = concat (map select selectors)"


section \<open>The world outside: documents, the browser, the network, the file system\<close>

text \<open>
  A loaded document is given by the answers to the queries the scrapers put to it;
  HTML parsing itself is a library matter. One record serves all scrapers, each reading
  the fields its own selectors produce.
\<close>

record trow =
  cells :: "string list"
    \<comment> \<open>\<open>td.get_text(" ", strip=True)\<close> for each \<open>td\<close> of the row\<close>
  pdf_href :: "string option"
    \<comment> \<open>\<open>href\<close> of \<open>tr.select_one("a[href$='.pdf']")\<close>\<close>
  http_href :: "string option"
    \<comment> \<open>\<open>href\<close> of \<open>tr.select_one("a[href^='http']")\<close> (rti)\<close>
  dl_link :: "(string \<times> string) option"
    \<comment> \<open>\<open>href\<close> and text of \<open>tds[4].find("a", href=True)\<close> (auto)\<close>

record html_table =
  thead :: "string list"   \<comment> \<open>text of the header cells \<open>thead th\<close>\<close>
  tbody :: "trow list"     \<comment> \<open>the rows \<open>tbody tr\<close>\<close>

record anchor =
  a_class :: "string option"   \<comment> \<open>\<open>get_attribute("class")\<close>\<close>
  a_href :: "string option"    \<comment> \<open>\<open>get_attribute("href")\<close>\<close>

datatype pager_view =
    NoPager                     \<comment> \<open>no \<open>ul.pager, ul.pager__items, ul.pagination\<close>\<close>
  | PagerNoNext                 \<comment> \<open>a pager without a next link\<close>
  | PagerNext "string option"   \<comment> \<open>the next link and its \<open>href\<close> attribute\<close>

record page =
  table :: "html_table option"
    \<comment> \<open>\<open>soup.select_one("table")\<close>; for auto, \<open>"table.tableData, table.responsiveTable"\<close>\<close>
  next_a :: "anchor option"
    \<comment> \<open>\<open>find_element(By.CSS_SELECTOR, "li.pager__item--next a")\<close>\<close>
  next_enabled_a :: "anchor option"
    \<comment> \<open>\<open>find_element(By.CSS_SELECTOR, "li.pager__item--next:not(.is-disabled) a")\<close>\<close>
  archive_href :: "string option"
    \<comment> \<open>\<open>href\<close> of \<open>soup.select_one("a.button[href*='archive']")\<close>\<close>
  pager :: pager_view
    \<comment> \<open>the pager as \<open>paginate_listing\<close> of auto reads it from the soup\<close>

datatype exn = TimeoutException | OtherException

text \<open>What \<open>driver.get(url)\<close> does.\<close>

datatype nav =
    Loaded url page
    \<comment> \<open>returns; the browser's \<open>current_url\<close> and \<open>page_source\<close> afterwards\<close>
  | TimedOut url page bool
    \<comment> \<open>raises \<open>TimeoutException\<close>; the partial document, and whether
        \<open>execute_script("return window.stop();")\<close> then succeeds\<close>
  | NavError
    \<comment> \<open>raises an exception that is not a \<open>TimeoutException\<close>\<close>

text \<open>What \<open>requests.get(url)\<close> does, and the streamed variant of proc.\<close>

datatype http_result =
    Response nat string   \<comment> \<open>status code and body\<close>
  | ConnError             \<comment> \<open>raises (connection error, timeout)\<close>

datatype stream_result =
    Stream nat "string list" bool
    \<comment> \<open>status code, the chunks \<open>iter_content\<close> yields, and whether it then
        raises instead of ending\<close>
  | StreamConnError

text \<open>The readiness polls and the \<open>WebDriverWait\<close> of the longer \<open>safe_get\<close>.\<close>

datatype poll = ReadyState string | PollRaises

datatype wait_result = WaitFound | WaitTimeout | WaitRaises

text \<open>
  What happens when a download opens its destination with \<open>open(path, "wb")\<close> and
  writes the data: all of it is written; or \<open>open\<close> raises (a name longer than the
  file system allows, a directory, no permission) and no file comes into being; or the
  write raises after the file was created, which then holds the part written so far.
\<close>

datatype write_result = Written | OpenFails | WriteFails string

text \<open>
  The world a run meets. The site, the servers and the disk answer the same request in
  the same way throughout a run; reading the browser's current address and document does
  not fail, and neither does writing the CSV file.
\<close>

record env =
  site :: "url \<Rightarrow> nav"
  http :: "url \<Rightarrow> http_result"
  http_stream :: "url \<Rightarrow> stream_result"
  disk :: "string \<Rightarrow> string \<Rightarrow> write_result"
    \<comment> \<open>opening the path for writing and writing the data\<close>
  ready_polls :: "url \<Rightarrow> poll list"
    \<comment> \<open>the polls of \<open>document.readyState\<close> that fit before \<open>end_time\<close>\<close>
  wait_for :: "url \<Rightarrow> wait_result"
  urljoin :: "string \<Rightarrow> string \<Rightarrow> string"    \<comment> \<open>\<open>urllib.parse.urljoin\<close>\<close>
  urlparse_path :: "string \<Rightarrow> string"          \<comment> \<open>\<open>urllib.parse.urlparse(url).path\<close>\<close>
  now :: string                                  \<comment> \<open>\<open>datetime.now().strftime(...)\<close>\<close>

record browser =
  current_url :: url
  page_source :: page

datatype content = Bytes string | Csv "string list list"

datatype event = Nav url | HttpGet url | CsvWrite string

text \<open>
  A scraper object together with the world it changes: the rows collected so far, the
  browser, the files on disk, and the trace of page loads, HTTP requests and CSV writes.
  Console output is not modelled: \<open>print\<close> is taken to succeed.
\<close>

record 'r scraper =
  rows :: "'r list"
  driver :: browser
  files :: "string \<rightharpoonup> content"
  log :: "event list"
  closed :: bool   \<comment> \<open>\<open>driver.quit()\<close> has run\<close>

definition BASE_URL :: string where "BASE_URL = ''https://doe.gov.in''"

text \<open>
  \<open>os.path.exists\<close> for a path made of \<open>pdfs\<close> and a name without a slash: a file
  that is there, or the directory \<open>pdfs\<close>, which every script creates when it is
  loaded, under one of the three names that lead to a directory: the empty name, the dot
  and the double dot.
\<close>

definition path_exists :: "(string \<rightharpoonup> content) \<Rightarrow> string \<Rightarrow> bool" where
  "path_exists fs p =
     (fs p \<noteq> None \<or> p = PDF_DIR @ ''/'' \<or> p = PDF_DIR @ ''/.'' \<or> p = PDF_DIR @ ''/..'')"


section \<open>The table scrapers (rec\_scraper.py and its siblings)\<close>

record row =
  section_type :: string
  section_name :: string
  element_type :: string
  title :: string
  content :: string
  url :: string
  pdf_url :: string
  local_pdf_path :: string

definition META_FIELDS :: "string list" where
  "META_FIELDS = [''section_type'', ''section_name'', ''element_type'',
                  ''title'', ''content'', ''url'', ''pdf_url'', ''local_pdf_path'']"

subsection \<open>\<open>safe_get\<close>\<close>

definition safe_get :: "env \<Rightarrow> url \<Rightarrow> 'r scraper \<Rightarrow> (exn \<times> 'r scraper) + 'r scraper" where
  "safe_get env u s =
     (let s1 = s\<lparr>log := log s @ [Nav u]\<rparr> in
      case site env u of
        Loaded cu p \<Rightarrow> Inr (s1\<lparr>driver := \<lparr>current_url = cu, page_source = p\<rparr>\<rparr>)
      | TimedOut cu p stop_ok \<Rightarrow>
          let s2 = s1\<lparr>driver := \<lparr>current_url = cu, page_source = p\<rparr>\<rparr> in
          if stop_ok then Inr s2 else Inl (OtherException, s2)
      | NavError \<Rightarrow> Inl (OtherException, s1))"

subsection \<open>\<open>extract_table\<close>\<close>

definition default_headers :: "string list" where
  "default_headers = [''Sr.No'', ''Title'', ''Date'', ''Download'']"

text \<open>\<open>dict(zip(headers, cells))\<close>: a later duplicate header overwrites an earlier one.\<close>

definition row_data :: "string list \<Rightarrow> string list \<Rightarrow> string \<rightharpoonup> string" where
  "row_data headers cs = map_of (rev (zip headers cs))"

text \<open>\<open>row_data.get(h, '')\<close>.\<close>

definition get_or_empty :: "(string \<rightharpoonup> string) \<Rightarrow> string \<Rightarrow> string" where
  "get_or_empty d h = (case d h of None \<Rightarrow> [] | Some v \<Rightarrow> v)"

text \<open>\<open>row_data.get("Title") or (cells[1] if len(cells) > 1 else "Untitled")\<close>.\<close>

definition derive_title :: "(string \<rightharpoonup> string) \<Rightarrow> string list \<Rightarrow> string" where
  "derive_title d cs =
     (case d ''Title'' of
        Some v \<Rightarrow> if v \<noteq> [] then v else (if length cs > 1 then cs ! 1 else ''Untitled'')
      | None \<Rightarrow> (if length cs > 1 then cs ! 1 else ''Untitled''))"

definition content_repr :: "string list \<Rightarrow> (string \<rightharpoonup> string) \<Rightarrow> string" where
  "content_repr headers d = join '' | '' (map (\<lambda>h. h @ '': '' @ get_or_empty d h) headers)"

definition resolve_pdf :: "env \<Rightarrow> trow \<Rightarrow> string" where
  "resolve_pdf env tr = (case pdf_href tr of None \<Rightarrow> [] | Some h \<Rightarrow> urljoin env BASE_URL h)"

definition extract_row ::
  "env \<Rightarrow> string list \<Rightarrow> string \<Rightarrow> url \<Rightarrow> trow \<Rightarrow> row scraper \<Rightarrow> row scraper" where
  "extract_row env headers sec page_url tr s =
     (if cells tr = [] then s
      else
        let d = row_data headers (cells tr) in
        s\<lparr>rows := rows s @
          [\<lparr>section_type = ''Table'', section_name = sec, element_type = ''Row'',
            title = derive_title d (cells tr),
            content = content_repr headers d,
            url = page_url, pdf_url = resolve_pdf env tr, local_pdf_path = []\<rparr>]\<rparr>)"

definition headers_of :: "html_table \<Rightarrow> string list" where
  "headers_of t = (if thead t = [] then default_headers else thead t)"

definition extract_table :: "env \<Rightarrow> page \<Rightarrow> string \<Rightarrow> url \<Rightarrow> row scraper \<Rightarrow> row scraper" where
  "extract_table env soup sec page_url s =
     (case table soup of
        None \<Rightarrow> s
      | Some t \<Rightarrow> fold (extract_row env (headers_of t) sec page_url) (tbody t) s)"

subsection \<open>\<open>handle_pagination\<close> with a visited set (rec, rti, manuals)\<close>

text \<open>
  The \<open>try\<close> block around the pager turns every exception into \<open>break\<close>: no next
  element, no \<open>class\<close> attribute (\<open>in\<close> on \<open>None\<close>), and a \<open>safe_get\<close> that raises.
  The loop is a function of its state, the visited set and the scraper; \<open>None\<close> is
  a loop that never ends.
\<close>

partial_function (option) handle_pagination_loop ::
  "env \<Rightarrow> string \<Rightarrow> url set \<Rightarrow> row scraper \<Rightarrow> row scraper option" where
  "handle_pagination_loop env sec visited s =
     (let cur = current_url (driver s) in
      if cur \<in> visited then Some s
      else
        let s1 = extract_table env (page_source (driver s)) sec cur s in
        case next_a (page_source (driver s)) of
          None \<Rightarrow> Some s1
        | Some next_btn \<Rightarrow>
            (case a_class next_btn of
               None \<Rightarrow> Some s1
             | Some cls \<Rightarrow>
                 if contains ''is-disabled'' cls then Some s1
                 else
                   (case a_href next_btn of
                      None \<Rightarrow> Some s1
                    | Some next_href \<Rightarrow>
                        if next_href = [] then Some s1
                        else
                          (case safe_get env next_href s1 of
                             Inl (e, s2) \<Rightarrow> Some s2
                           | Inr s2 \<Rightarrow> handle_pagination_loop env sec (insert cur visited) s2))))"

text \<open>The method itself starts the loop with an empty visited set; it never reads \<open>start_url\<close>.\<close>

definition handle_pagination :: "env \<Rightarrow> string \<Rightarrow> url \<Rightarrow> row scraper \<Rightarrow> row scraper option" where
  "handle_pagination env sec start_url s = handle_pagination_loop env sec {} s"


subsection \<open>\<open>scrape_main_and_archive\<close>\<close>

definition PAGE_PATH :: string where "PAGE_PATH = ''/recruitment-rules''"

text \<open>A \<open>safe_get\<close> outside \<open>handle_pagination\<close> is not inside any \<open>try\<close>: it raises upward.\<close>

definition scrape_main_and_archive ::
  "env \<Rightarrow> row scraper \<Rightarrow> ((exn \<times> row scraper) + row scraper) option" where
  "scrape_main_and_archive env s =
     (let main_url = urljoin env BASE_URL PAGE_PATH in
      case safe_get env main_url s of
        Inl x \<Rightarrow> Some (Inl x)
      | Inr s1 \<Rightarrow>
          (case handle_pagination env ''Main Section'' main_url s1 of
             None \<Rightarrow> None
           | Some s2 \<Rightarrow>
               (case archive_href (page_source (driver s2)) of
                  None \<Rightarrow> Some (Inr s2)
                | Some h \<Rightarrow>
                    let archive_url = urljoin env BASE_URL h in
                    (case safe_get env archive_url s2 of
                       Inl x \<Rightarrow> Some (Inl x)
                     | Inr s3 \<Rightarrow>
                         map_option Inr (handle_pagination env ''Archive Section'' archive_url s3)))))"

subsection \<open>\<open>download_pdfs\<close>\<close>

text \<open>
  The body of the loop for one row: the row, the files and the trace afterwards.
  \<open>open\<close> and \<open>write\<close> are inside the \<open>try\<close>: when one of them raises, the
  handler prints and the row is not given the path.
\<close>

definition download_row ::
  "env \<Rightarrow> row \<Rightarrow> (string \<rightharpoonup> content) \<Rightarrow> event list
     \<Rightarrow> row \<times> (string \<rightharpoonup> content) \<times> event list" where
  "download_row env r fs lg =
     (let u = pdf_url r in
      if u \<noteq> [] \<and> endswith (lower u) ''.pdf'' then
        let filename = basename (split_query u);
            local_path = path_join PDF_DIR filename in
        if \<not> path_exists fs local_path then
          (case http env u of
             Response code body \<Rightarrow>
               if code = 200 then
                 (case disk env local_path body of
                    Written \<Rightarrow>
                      (r\<lparr>local_pdf_path := local_path\<rparr>, fs(local_path \<mapsto> Bytes body),
                       lg @ [HttpGet u])
                  | OpenFails \<Rightarrow> (r, fs, lg @ [HttpGet u])
                  | WriteFails part \<Rightarrow> (r, fs(local_path \<mapsto> Bytes part), lg @ [HttpGet u]))
               else (r, fs, lg @ [HttpGet u])
           | ConnError \<Rightarrow> (r, fs, lg @ [HttpGet u]))
        else (r\<lparr>local_pdf_path := local_path\<rparr>, fs, lg)
      else (r, fs, lg))"

fun download_rows ::
  "env \<Rightarrow> row list \<Rightarrow> (string \<rightharpoonup> content) \<Rightarrow> event list
     \<Rightarrow> row list \<times> (string \<rightharpoonup> content) \<times> event list" where
  "download_rows env [] fs lg = ([], fs, lg)"
| "download_rows env (r # rs) fs lg =
     (case download_row env r fs lg of
        (r', fs', lg') \<Rightarrow>
          (case download_rows env rs fs' lg' of
             (rs', fs'', lg'') \<Rightarrow> (r' # rs', fs'', lg'')))"

definition download_pdfs :: "env \<Rightarrow> row scraper \<Rightarrow> row scraper" where
  "download_pdfs env s =
     (case download_rows env (rows s) (files s) (log s) of
        (rs, fs, lg) \<Rightarrow> s\<lparr>rows := rs, files := fs, log := lg\<rparr>)"

text \<open>manuals\_scraper.py tests only the suffix of the URL.\<close>

definition manuals_download_row ::
  "env \<Rightarrow> row \<Rightarrow> (string \<rightharpoonup> content) \<Rightarrow> event list
     \<Rightarrow> row \<times> (string \<rightharpoonup> content) \<times> event list" where
  "manuals_download_row env r fs lg =
     (if endswith (lower (pdf_url r)) ''.pdf'' then
        let fn = basename (split_query (pdf_url r));
            lp = path_join PDF_DIR fn in
        if \<not> path_exists fs lp then
          (case http env (pdf_url r) of
             Response code body \<Rightarrow>
               if code = 200 then
                 (case disk env lp body of
                    Written \<Rightarrow>
                      (r\<lparr>local_pdf_path := lp\<rparr>, fs(lp \<mapsto> Bytes body),
                       lg @ [HttpGet (pdf_url r)])
                  | OpenFails \<Rightarrow> (r, fs, lg @ [HttpGet (pdf_url r)])
                  | WriteFails part \<Rightarrow>
                      (r, fs(lp \<mapsto> Bytes part), lg @ [HttpGet (pdf_url r)]))
               else (r, fs, lg @ [HttpGet (pdf_url r)])
           | ConnError \<Rightarrow> (r, fs, lg @ [HttpGet (pdf_url r)]))
        else (r\<lparr>local_pdf_path := lp\<rparr>, fs, lg)
      else (r, fs, lg))"

subsection \<open>\<open>save_csv\<close> and \<open>run\<close>\<close>

definition row_values :: "row \<Rightarrow> string list" where
  "row_values r = [section_type r, section_name r, element_type r, title r, content r,
                   url r, pdf_url r, local_pdf_path r]"

text \<open>
  \<open>pd.DataFrame(self.rows, columns=META_FIELDS)\<close> followed by \<open>to_csv\<close>: the header
  line and one line per row. There is no test for an empty list of rows.
\<close>

definition save_csv :: "env \<Rightarrow> row scraper \<Rightarrow> row scraper" where
  "save_csv env s =
     (let out_path = path_join OUT_DIR (''recruitment_rules_'' @ now env @ ''.csv'') in
      s\<lparr>files := (files s)(out_path \<mapsto> Csv (META_FIELDS # map row_values (rows s))),
        log := log s @ [CsvWrite out_path]\<rparr>)"

definition quit :: "'r scraper \<Rightarrow> 'r scraper" where
  "quit s = s\<lparr>closed := True\<rparr>"

text \<open>\<open>try: scrape; download; save  finally: quit\<close>. An exception leaves through
  the \<open>finally\<close> block and skips the steps after the one that raised.\<close>

definition run :: "env \<Rightarrow> row scraper \<Rightarrow> ((exn \<times> row scraper) + row scraper) option" where
  "run env s =
     (case scrape_main_and_archive env s of
        None \<Rightarrow> None
      | Some (Inl (e, s1)) \<Rightarrow> Some (Inl (e, quit s1))
      | Some (Inr s1) \<Rightarrow> Some (Inr (quit (save_csv env (download_pdfs env s1)))))"


section \<open>Pagination without a visited set (grants\_scraper.py)\<close>

definition grants_extract_row ::
  "env \<Rightarrow> string \<Rightarrow> url \<Rightarrow> trow \<Rightarrow> row scraper \<Rightarrow> row scraper" where
  "grants_extract_row env sec page_url tr s =
     (let tds = cells tr in
      if tds = [] then s
      else
        s\<lparr>rows := rows s @
          [\<lparr>section_type = ''Table'', section_name = sec, element_type = ''Row'',
            title = (if length tds > 1 then tds ! 1 else ''Untitled''),
            content = join '' | '' tds,
            url = page_url, pdf_url = resolve_pdf env tr, local_pdf_path = []\<rparr>]\<rparr>)"

definition grants_extract_table ::
  "env \<Rightarrow> page \<Rightarrow> string \<Rightarrow> url \<Rightarrow> row scraper \<Rightarrow> row scraper" where
  "grants_extract_table env soup sec page_url s =
     (case table soup of
        None \<Rightarrow> s
      | Some t \<Rightarrow> fold (grants_extract_row env sec page_url) (tbody t) s)"

text \<open>
  The loop ends only when the selector for an enabled next link finds nothing.
  \<open>safe_get\<close> is called outside the \<open>try\<close>, so what it raises leaves the loop; a next
  link without \<open>href\<close> hands \<open>None\<close> to \<open>driver.get\<close>, which raises.
\<close>

partial_function (option) grants_handle_pagination ::
  "env \<Rightarrow> string \<Rightarrow> url \<Rightarrow> row scraper \<Rightarrow> ((exn \<times> row scraper) + row scraper) option" where
  "grants_handle_pagination env sec page_url s =
     (let s1 = grants_extract_table env (page_source (driver s)) sec page_url s in
      case next_enabled_a (page_source (driver s)) of
        None \<Rightarrow> Some (Inr s1)
      | Some next_btn \<Rightarrow>
          (case a_href next_btn of
             None \<Rightarrow> Some (Inl (OtherException, s1))
           | Some next_href \<Rightarrow>
               (case safe_get env next_href s1 of
                  Inl x \<Rightarrow> Some (Inl x)
                | Inr s2 \<Rightarrow> grants_handle_pagination env sec next_href s2)))"


section \<open>\<open>extract_table\<close> of rti\_scraper.py\<close>

definition rti_default_headers :: "string list" where
  "rti_default_headers = [''Sr.No'', ''Title'', ''Date'', ''Download'', ''Hyperlink'']"

definition rti_headers_of :: "html_table \<Rightarrow> string list" where
  "rti_headers_of t = (if thead t = [] then rti_default_headers else thead t)"

definition rti_extract_row ::
  "env \<Rightarrow> string list \<Rightarrow> string \<Rightarrow> url \<Rightarrow> trow \<Rightarrow> row scraper \<Rightarrow> row scraper" where
  "rti_extract_row env headers sec page_url tr s =
     (if cells tr = [] then s
      else
        let d = row_data headers (cells tr);
            hyperlink = (case http_href tr of None \<Rightarrow> [] | Some h \<Rightarrow> h);
            structured_content =
              content_repr headers d @
              (if hyperlink \<noteq> [] then '' | Hyperlink: '' @ hyperlink else [])
        in
        s\<lparr>rows := rows s @
          [\<lparr>section_type = ''Table'', section_name = sec, element_type = ''Row'',
            title = derive_title d (cells tr),
            content = structured_content,
            url = page_url, pdf_url = resolve_pdf env tr, local_pdf_path = []\<rparr>]\<rparr>)"

definition rti_extract_table ::
  "env \<Rightarrow> page \<Rightarrow> string \<Rightarrow> url \<Rightarrow> row scraper \<Rightarrow> row scraper" where
  "rti_extract_table env soup sec page_url s =
     (case table soup of
        None \<Rightarrow> s
      | Some t \<Rightarrow> fold (rti_extract_row env (rti_headers_of t) sec page_url) (tbody t) s)"


section \<open>The longer \<open>safe_get\<close> (ocac, pfd, fcd, ajnifm, auto, proc)\<close>

text \<open>
  The polling loop: each poll either reads \<open>document.readyState\<close> or raises, and a
  raising poll is passed over. The list ends when \<open>end_time\<close> is reached.
\<close>

fun poll_ready :: "poll list \<Rightarrow> exn + unit" where
  "poll_ready [] = Inr ()"
| "poll_ready (ReadyState st # ps) =
     (if st = ''interactive'' \<or> st = ''complete'' then Inr () else poll_ready ps)"
| "poll_ready (PollRaises # ps) = poll_ready ps"

text \<open>
  After the navigation: the polls, then \<open>WebDriverWait(...).until(...)\<close> inside
  \<open>try ... except TimeoutException: pass\<close>.
\<close>

definition after_load :: "env \<Rightarrow> url \<Rightarrow> 'r scraper \<Rightarrow> (exn \<times> 'r scraper) + 'r scraper" where
  "after_load env u s =
     (case poll_ready (ready_polls env u) of
        Inl e \<Rightarrow> Inl (e, s)
      | Inr _ \<Rightarrow>
          (case wait_for env u of
             WaitFound \<Rightarrow> Inr s
           | WaitTimeout \<Rightarrow> Inr s
           | WaitRaises \<Rightarrow> Inl (OtherException, s)))"

text \<open>
  \<open>driver.get\<close> inside \<open>try ... except TimeoutException\<close>, whose handler wraps
  \<open>window.stop()\<close> in \<open>try ... except Exception: pass\<close>.
\<close>

definition safe_get_wait ::
  "env \<Rightarrow> url \<Rightarrow> 'r scraper \<Rightarrow> (exn \<times> 'r scraper) + 'r scraper" where
  "safe_get_wait env u s =
     (let s1 = s\<lparr>log := log s @ [Nav u]\<rparr> in
      case site env u of
        Loaded cu p \<Rightarrow> after_load env u (s1\<lparr>driver := \<lparr>current_url = cu, page_source = p\<rparr>\<rparr>)
      | TimedOut cu p stop_ok \<Rightarrow>
          after_load env u (s1\<lparr>driver := \<lparr>current_url = cu, page_source = p\<rparr>\<rparr>)
      | NavError \<Rightarrow> Inl (OtherException, s1))"


section \<open>Downloading while parsing (auto\_scraper.py)\<close>

type_synonym drow = "(string \<times> string) list"

text \<open>
  The characters that \<open>str.strip()\<close> removes: the ASCII white space, the separators
  from 28 to 31, the next-line character 133 and the no-break space 160.
\<close>

definition is_space :: "char \<Rightarrow> bool" where
  "is_space c =
     (c \<in> set [CHR '' '', CHR 0x09, CHR 0x0A, CHR 0x0B, CHR 0x0C, CHR 0x0D,
                CHR 0x1C, CHR 0x1D, CHR 0x1E, CHR 0x1F, CHR 0x85, CHR 0xA0])"

text \<open>The class \<open>[A-Za-z0-9_]\<close>, as proc\_scraper.py spells it out.\<close>

definition is_ascii_word :: "char \<Rightarrow> bool" where
  "is_ascii_word c =
     (let n = (of_char c :: nat) in
      (48 \<le> n \<and> n \<le> 57) \<or> (65 \<le> n \<and> n \<le> 90) \<or> (97 \<le> n \<and> n \<le> 122) \<or> n = 95)"

text \<open>
  \<open>\w\<close> in a pattern for \<open>str\<close>: the underscore and every character that is
  alphanumeric for Python. Below 256 these are, beyond ASCII, the ordinal indicators 170
  and 186, the micro sign 181, the superscript digits 178, 179 and 185, the fractions
  from 188 to 190 and the letters from 192 to 255 without the multiplication sign 215 and
  the division sign 247.
\<close>

definition is_word :: "char \<Rightarrow> bool" where
  "is_word c =
     (let n = (of_char c :: nat) in
      is_ascii_word c \<or> n = 170 \<or> n = 178 \<or> n = 179 \<or> n = 181 \<or> n = 185 \<or> n = 186 \<or>
      (188 \<le> n \<and> n \<le> 190) \<or> (192 \<le> n \<and> n \<le> 214) \<or> (216 \<le> n \<and> n \<le> 246) \<or>
      (248 \<le> n \<and> n \<le> 255))"

text \<open>\<open>s.strip()\<close> and \<open>s.strip("_")\<close>.\<close>

definition strip_chars :: "(char \<Rightarrow> bool) \<Rightarrow> string \<Rightarrow> string" where
  "strip_chars P s = rev (dropWhile P (rev (dropWhile P s)))"

text \<open>
  \<open>re.sub(r"[C]+", "_", s)\<close> for a character class \<open>C\<close>: every maximal run of
  characters of the class becomes one underscore. The flag says that the previous
  character belonged to a run.
\<close>

fun sub_runs :: "(char \<Rightarrow> bool) \<Rightarrow> bool \<Rightarrow> string \<Rightarrow> string" where
  "sub_runs P in_run [] = []"
| "sub_runs P in_run (c # cs) =
     (if P c then (if in_run then sub_runs P True cs else CHR ''_'' # sub_runs P True cs)
      else c # sub_runs P False cs)"

definition slugify :: "string \<Rightarrow> string" where
  "slugify text =
     (let t1 = sub_runs (\<lambda>c. \<not> (is_word c \<or> c = CHR ''-'')) False (strip_chars is_space text);
          t2 = strip_chars (\<lambda>c. c = CHR ''_'') (sub_runs (\<lambda>c. c = CHR ''_'') False t1)
      in if t2 \<noteq> [] then t2 else ''file'')"

text \<open>\<open>raise_for_status\<close> raises for the status codes from 400 to 599.\<close>

definition is_error_status :: "nat \<Rightarrow> bool" where
  "is_error_status code = (400 \<le> code \<and> code < 600)"

definition auto_download_pdf ::
  "env \<Rightarrow> string \<Rightarrow> string \<Rightarrow> string \<Rightarrow> (string \<rightharpoonup> content) \<Rightarrow> event list
     \<Rightarrow> string \<times> (string \<rightharpoonup> content) \<times> event list" where
  "auto_download_pdf env u memo_no listing_type fs lg =
     (if u = [] then ([], fs, lg)
      else
        let slug_memo = slugify (if memo_no \<noteq> [] then memo_no else ''memo'');
            filename = ''autonomous_bodies_'' @ listing_type @ ''_'' @ slug_memo @ ''.pdf'';
            local_path = path_join PDF_DIR filename in
        if path_exists fs local_path then (local_path, fs, lg)
        else
          (case http env u of
             Response code body \<Rightarrow>
               if is_error_status code then ([], fs, lg @ [HttpGet u])
               else
                 (case disk env local_path body of
                    Written \<Rightarrow> (local_path, fs(local_path \<mapsto> Bytes body), lg @ [HttpGet u])
                  | OpenFails \<Rightarrow> ([], fs, lg @ [HttpGet u])
                  | WriteFails part \<Rightarrow> ([], fs(local_path \<mapsto> Bytes part), lg @ [HttpGet u]))
           | ConnError \<Rightarrow> ([], fs, lg @ [HttpGet u])))"

text \<open>
  \<open>s.replace(old, "")\<close> for a non-empty \<open>old\<close>: occurrences are removed from left to
  right; the counter is the number of characters of the current occurrence still to drop.
\<close>

fun remove_all :: "string \<Rightarrow> nat \<Rightarrow> string \<Rightarrow> string" where
  "remove_all old k [] = []"
| "remove_all old k (c # cs) =
     (if k > 0 then remove_all old (k - 1) cs
      else if prefix old (c # cs) then remove_all old (length old - 1) cs
      else c # remove_all old 0 cs)"

definition auto_parse_row ::
  "env \<Rightarrow> url \<Rightarrow> string \<Rightarrow> string list \<Rightarrow> trow \<Rightarrow> drow scraper \<Rightarrow> drow scraper" where
  "auto_parse_row env page_url listing_type headers tr s =
     (let tds = cells tr in
      if length tds < 5 then s
      else
        let sr_no = tds ! 0; memo_no = tds ! 1; subject = tds ! 2; date_text = tds ! 3;
            u = (case dl_link tr of None \<Rightarrow> [] | Some (h, t) \<Rightarrow> urljoin env BASE_URL h);
            dl_text = (case dl_link tr of None \<Rightarrow> [] | Some (h, t) \<Rightarrow> t);
            size_text =
              (if dl_text \<noteq> [] then strip_chars is_space (remove_all dl_text 0 (tds ! 4))
               else tds ! 4)
        in
        case auto_download_pdf env u memo_no listing_type (files s) (log s) of
          (local_pdf, fs, lg) \<Rightarrow>
            s\<lparr>rows := rows s @
                [ [(''section_type'', ''Pay Related Matters''),
                  (''section_name'', ''Autonomous Bodies''),
                  (''listing_type'', listing_type),
                  (''element_type'', ''Row''),
                  (''sr_no'', sr_no),
                  (''office_memorandum_no'', memo_no),
                  (''subject'', subject),
                  (''date'', date_text),
                  (''download_text'', dl_text),
                  (''file_size'', size_text),
                  (''pdf_url'', u),
                  (''local_pdf_path'', local_pdf),
                  (''page_url'', page_url),
                  (''headers_snapshot'', join '' | '' headers)] ],
              files := fs, log := lg\<rparr>)"

definition parse_table :: "env \<Rightarrow> page \<Rightarrow> url \<Rightarrow> string \<Rightarrow> drow scraper \<Rightarrow> drow scraper" where
  "parse_table env soup page_url listing_type s =
     (case table soup of
        None \<Rightarrow> s
      | Some t \<Rightarrow> fold (auto_parse_row env page_url listing_type (thead t)) (tbody t) s)"

text \<open>
  The loop of \<open>paginate_listing\<close>: the page is loaded at the top of each round,
  and a next link that leads to a visited URL ends the loop before it is followed.
\<close>

partial_function (option) paginate_listing_loop ::
  "env \<Rightarrow> string \<Rightarrow> url set \<Rightarrow> url \<Rightarrow> drow scraper
     \<Rightarrow> ((exn \<times> drow scraper) + drow scraper) option" where
  "paginate_listing_loop env listing_type visited current s =
     (if current \<in> visited then Some (Inr s)
      else
        case safe_get_wait env current s of
          Inl x \<Rightarrow> Some (Inl x)
        | Inr s1 \<Rightarrow>
            let soup = page_source (driver s1);
                s2 = parse_table env soup current listing_type s1 in
            (case pager soup of
               NoPager \<Rightarrow> Some (Inr s2)
             | PagerNoNext \<Rightarrow> Some (Inr s2)
             | PagerNext None \<Rightarrow> Some (Inr s2)
             | PagerNext (Some href) \<Rightarrow>
                 if href = [] then Some (Inr s2)
                 else
                   let next_url = urljoin env BASE_URL href in
                   if next_url \<in> insert current visited then Some (Inr s2)
                   else paginate_listing_loop env listing_type (insert current visited) next_url s2))"

definition paginate_listing ::
  "env \<Rightarrow> url \<Rightarrow> string \<Rightarrow> drow scraper \<Rightarrow> ((exn \<times> drow scraper) + drow scraper) option" where
  "paginate_listing env start_url listing_type s =
     paginate_listing_loop env listing_type {} start_url s"


section \<open>The result sink of the narrative scrapers: \<open>save\<close> (ocac, pfd)\<close>

text \<open>\<open>META_FIELDS\<close>, the same list in both files.\<close>

definition OCAC_META_FIELDS :: "string list" where
  "OCAC_META_FIELDS =
     [''section_type'', ''section_name'', ''element_type'', ''title'', ''content'',
      ''url'', ''image_url'', ''pdf_url'', ''local_image_path'', ''local_pdf_path'']"

definition meta_left :: "string list" where
  "meta_left = [''section_type'', ''section_name'', ''element_type'', ''title'', ''content'']"

definition meta_right :: "string list" where
  "meta_right = [''url'', ''image_url'', ''pdf_url'', ''local_image_path'', ''local_pdf_path'']"

text \<open>\<open>r.setdefault(k, v)\<close> on a dictionary kept as an association list.\<close>

definition setdefault :: "string \<Rightarrow> string \<Rightarrow> drow \<Rightarrow> drow" where
  "setdefault k v r = (if map_of r k = None then r @ [(k, v)] else r)"

text \<open>\<open>pd.DataFrame(rows).columns\<close>: the keys of all rows, each at its first occurrence.\<close>

definition df_columns :: "drow list \<Rightarrow> string list" where
  "df_columns rs = rev (remdups (rev (concat (map (map fst) rs))))"

definition final_cols :: "string list \<Rightarrow> string list" where
  "final_cols table_headers = meta_left @ table_headers @ meta_right"

text \<open>
  One cell of the written file. A column the frame did not have was added filled with
  the empty string; a column it had holds the row's value, or \<open>NaN\<close> where the row has
  no such key, which \<open>to_csv\<close> writes as the empty string.
\<close>

definition csv_cell :: "string list \<Rightarrow> drow \<Rightarrow> string \<Rightarrow> string" where
  "csv_cell cols r c =
     (if c \<in> set cols then (case map_of r c of None \<Rightarrow> [] | Some v \<Rightarrow> v) else [])"

text \<open>
  The method \<open>save\<close>, which the two scrapers share but for the name of the file.
  \<open>table_headers\<close> is the attribute \<open>self.table_headers\<close>, which \<open>__init__\<close> sets to
  the empty list and no other line of ocac\_scraper.py or pfd\_scraper.py assigns: in a
  run its value is \<open>[]\<close>, whatever keys the records have.
\<close>

definition save_as :: "string \<Rightarrow> env \<Rightarrow> string list \<Rightarrow> drow scraper \<Rightarrow> drow scraper" where
  "save_as stem env table_headers s =
     (if rows s = [] then s
      else
        let rs = map (\<lambda>r. fold (\<lambda>f r. setdefault f [] r) OCAC_META_FIELDS r) (rows s);
            cols = df_columns rs;
            body = map (\<lambda>r. map (csv_cell cols r) (final_cols table_headers)) rs;
            out_path = path_join OUT_DIR (stem @ now env @ ''.csv'')
        in
        s\<lparr>rows := rs,
          files := (files s)(out_path \<mapsto> Csv (final_cols table_headers # body)),
          log := log s @ [CsvWrite out_path]\<rparr>)"

text \<open>\<open>save\<close> of ocac\_scraper.py and \<open>save\<close> of pfd\_scraper.py.\<close>

definition save :: "env \<Rightarrow> string list \<Rightarrow> drow scraper \<Rightarrow> drow scraper" where
  "save = save_as ''office_chief_adviser_cost_''"

definition pfd_save :: "env \<Rightarrow> string list \<Rightarrow> drow scraper \<Rightarrow> drow scraper" where
  "pfd_save = save_as ''public_finance_states_division_''"


section \<open>The streamed download of proc\_scraper.py\<close>

text \<open>
  The whole body of \<open>download_pdf\<close> is inside \<open>try ... except Exception\<close>, which
  returns the empty string. The file is opened for writing before the first chunk is
  read, and each non-empty chunk is written as it arrives; the disk is asked about the
  chunks that arrive.
\<close>

definition proc_download_pdf ::
  "env \<Rightarrow> string \<Rightarrow> string \<Rightarrow> (string \<rightharpoonup> content) \<Rightarrow> event list
     \<Rightarrow> string \<times> (string \<rightharpoonup> content) \<times> event list" where
  "proc_download_pdf env u pfx fs lg =
     (let b0 = basename (urlparse_path env u);
          b1 = (if b0 \<noteq> [] then b0 else ''document.pdf'');
          b2 = (if endswith (lower b1) ''.pdf'' then b1 else b1 @ ''.pdf'');
          base_name =
            (if pfx \<noteq> [] then
               sub_runs (\<lambda>c. \<not> (is_ascii_word c \<or> c = CHR ''-'')) False
                   (strip_chars is_space pfx)
                 @ ''_'' @ b2
             else b2);
          local_path = path_join PDF_DIR base_name in
      if path_exists fs local_path then (local_path, fs, lg)
      else
        (case http_stream env u of
           StreamConnError \<Rightarrow> ([], fs, lg @ [HttpGet u])
         | Stream code chunks breaks \<Rightarrow>
             if is_error_status code then ([], fs, lg @ [HttpGet u])
             else
               let arrived = concat (filter (\<lambda>c. c \<noteq> []) chunks) in
               (case disk env local_path arrived of
                  Written \<Rightarrow>
                    let written = fs(local_path \<mapsto> Bytes arrived) in
                    if breaks then ([], written, lg @ [HttpGet u])
                    else (local_path, written, lg @ [HttpGet u])
                | OpenFails \<Rightarrow> ([], fs, lg @ [HttpGet u])
                | WriteFails part \<Rightarrow> ([], fs(local_path \<mapsto> Bytes part), lg @ [HttpGet u]))))"


section \<open>Auxiliary notions for the proofs\<close>

text \<open>
  What the loop of \<open>find_main_content\<close> knows after the candidates \<open>xs\<close>: nothing
  yet if none of them had text, otherwise the first of those with the longest text.
\<close>

definition best_so_far :: "('e \<Rightarrow> string) \<Rightarrow> 'e list \<Rightarrow> 'e option \<Rightarrow> nat \<Rightarrow> bool" where
  "best_so_far get_text xs best best_len =
     (case best of
        None \<Rightarrow> best_len = 0 \<and> (\<forall>x \<in> set xs. get_text x = [])
      | Some c \<Rightarrow>
          best_len = length (get_text c) \<and> 0 < best_len \<and>
          (\<exists>i < length xs. c = xs ! i \<and>
             (\<forall>j < length xs. length (get_text (xs ! j)) \<le> best_len) \<and>
             (\<forall>j < i. length (get_text (xs ! j)) < best_len)))"

text \<open>
  The flattened content of a row whose cells are paired with the headers by position:
  a header beyond the last cell is followed by nothing.
\<close>

definition positional :: "string list \<Rightarrow> string list \<Rightarrow> string" where
  "positional hs cs =
     join '' | '' (map (\<lambda>i. hs ! i @ '': '' @ (if i < length cs then cs ! i else [])) [0..<length hs])"

text \<open>The record that \<open>extract_table\<close> appends for one row, given title and content.\<close>

definition table_row :: "env \<Rightarrow> string \<Rightarrow> url \<Rightarrow> trow \<Rightarrow> string \<Rightarrow> string \<Rightarrow> row" where
  "table_row env sec page_url tr ttl cont =
     \<lparr>section_type = ''Table'', section_name = sec, element_type = ''Row'',
      title = ttl, content = cont,
      url = page_url, pdf_url = resolve_pdf env tr, local_pdf_path = []\<rparr>"

text \<open>
  The guard and the destination path of \<open>download_pdfs\<close>, and the destination path of
  \<open>download_pdf\<close> in auto\_scraper.py, named for the statements below.
\<close>

definition wanted :: "string \<Rightarrow> bool" where
  "wanted u = (u \<noteq> [] \<and> endswith (lower u) ''.pdf'')"

definition dest :: "string \<Rightarrow> string" where
  "dest u = path_join PDF_DIR (basename (split_query u))"

definition auto_dest :: "string \<Rightarrow> string \<Rightarrow> string" where
  "auto_dest memo_no listing_type =
     path_join PDF_DIR
       (''autonomous_bodies_'' @ listing_type @ ''_'' @
        slugify (if memo_no \<noteq> [] then memo_no else ''memo'') @ ''.pdf'')"

definition is_get :: "event \<Rightarrow> bool" where
  "is_get e = (case e of HttpGet u \<Rightarrow> True | _ \<Rightarrow> False)"

definition is_nav :: "event \<Rightarrow> bool" where
  "is_nav e = (case e of Nav u \<Rightarrow> True | _ \<Rightarrow> False)"

text \<open>The addresses at which a navigation on the site can end.\<close>

definition landing :: "env \<Rightarrow> url set" where
  "landing env = {cu. \<exists>u p ok. site env u = Loaded cu p \<or> site env u = TimedOut cu p ok}"


section \<open>Concrete sites and runs used below\<close>

text \<open>
  Two containers, given by their text: 50 characters under the first selector and 500
  under the fourth.
\<close>

definition two_containers :: "string \<Rightarrow> string list" where
  "two_containers sel =
     (if sel = ''div.node__content'' then [replicate 50 CHR ''a'']
      else if sel = ''div.field--name-body'' then [replicate 500 CHR ''b'']
      else [])"

text \<open>
  A world in which nothing can be reached, to be overridden field by field, with a disk
  that takes every write and a \<open>urljoin\<close> that is right for the absolute and the
  root-relative links used here; and a scraper that has not done anything yet.
\<close>

definition blank_page :: page where
  "blank_page =
     \<lparr>table = None, next_a = None, next_enabled_a = None, archive_href = None,
      pager = NoPager\<rparr>"

definition dead_env :: env where
  "dead_env =
     \<lparr>site = (\<lambda>u. NavError), http = (\<lambda>u. ConnError), http_stream = (\<lambda>u. StreamConnError),
      disk = (\<lambda>p d. Written),
      ready_polls = (\<lambda>u. []), wait_for = (\<lambda>u. WaitFound),
      urljoin = (\<lambda>b h. if prefix ''http'' h then h else b @ h),
      urlparse_path = (\<lambda>u. drop (length BASE_URL) (split_query u)),
      now = ''20250101_000000''\<rparr>"

definition fresh :: "'r scraper" where
  "fresh =
     \<lparr>rows = [], driver = \<lparr>current_url = [], page_source = blank_page\<rparr>,
      files = Map.empty, log = [], closed = False\<rparr>"

text \<open>A table without header cells and with one row of five cells.\<close>

definition headerless_table :: html_table where
  "headerless_table =
     \<lparr>thead = [],
      tbody = [\<lparr>cells = [''1'', ''Rules 2020'', ''01/02/2020'', ''Download'', ''portal''],
                pdf_href = Some ''/files/rules.pdf'', http_href = None, dl_link = None\<rparr>]\<rparr>"

definition headerless_page :: page where
  "headerless_page = blank_page\<lparr>table := Some headerless_table\<rparr>"

text \<open>
  Two heterogeneous records: the first carries the page-specific field Remarks and lacks
  most of the metadata, the second has neither Remarks nor content.
\<close>

definition mixed :: "drow scraper" where
  "mixed =
     fresh\<lparr>rows :=
       [ [(''section_type'', ''Divisions''), (''title'', ''Paragraph 1''),
         (''content'', ''Costing''), (''Remarks'', ''draft'')],
        [(''section_type'', ''Breadcrumb''), (''title'', ''Home''), (''url'', ''u'')] ]\<rparr>"

text \<open>
  A site on which every navigation runs into the page-load timeout and can be stopped,
  whose readiness polls fail or report a document still loading, and on which the
  awaited element never appears.
\<close>

definition slow_env :: env where
  "slow_env =
     dead_env\<lparr>site := (\<lambda>u. TimedOut u blank_page True),
              ready_polls := (\<lambda>u. [PollRaises, ReadyState ''loading'']),
              wait_for := (\<lambda>u. WaitTimeout)\<rparr>"

text \<open>
  A server with one document under two directories, a document that is missing, a
  notice that is missing under the first of its two directories, and one download that
  breaks off after its first chunk.
\<close>

definition pdf_env :: env where
  "pdf_env =
     dead_env\<lparr>http := (\<lambda>u.
        if u = ''https://doe.gov.in/2023/rules.pdf'' then Response 200 ''%PDF rules 2023''
        else if u = ''https://doe.gov.in/2024/rules.pdf'' then Response 200 ''%PDF rules 2024''
        else if u = ''https://doe.gov.in/2024/rules.pdf?v=2'' then Response 200 ''%PDF rules v2''
        else if u = ''https://doe.gov.in/gone.pdf'' then Response 404 ''Not Found''
        else if u = ''https://doe.gov.in/2023/notice.pdf'' then Response 404 ''Not Found''
        else if u = ''https://doe.gov.in/2024/notice.pdf'' then Response 200 ''%PDF notice 2024''
        else ConnError),
      http_stream := (\<lambda>u.
        if u = ''https://doe.gov.in/files/om.pdf'' then Stream 200 [''%PDF om part 1''] True
        else StreamConnError)\<rparr>"

text \<open>The same server, with a disk on which no file can be created.\<close>

definition full_disk_env :: env where
  "full_disk_env = pdf_env\<lparr>disk := (\<lambda>p d. OpenFails)\<rparr>"

definition pdf_row :: "string \<Rightarrow> row" where
  "pdf_row u =
     \<lparr>section_type = ''Table'', section_name = ''Main Section'', element_type = ''Row'',
      title = ''Rules'', content = ''Sr.No: 1'', url = ''https://doe.gov.in/recruitment-rules'',
      pdf_url = u, local_pdf_path = []\<rparr>"

text \<open>
  A pager that always offers the same next URL: whatever address is asked for, the
  browser ends up at page 1 of the list, a page without a table whose next link is
  enabled and leads to page 1 again.
\<close>

definition loop_page :: page where
  "loop_page =
     blank_page\<lparr>
       next_a := Some \<lparr>a_class = Some [], a_href = Some ''https://doe.gov.in/list?page=1''\<rparr>,
       next_enabled_a := Some \<lparr>a_class = Some [], a_href = Some ''https://doe.gov.in/list?page=1''\<rparr>\<rparr>"

definition loop_env :: env where
  "loop_env = dead_env\<lparr>site := (\<lambda>u. Loaded ''https://doe.gov.in/list?page=1'' loop_page)\<rparr>"

text \<open>A scraper whose browser shows page \<open>p\<close> at address \<open>u\<close>.\<close>

definition at_page :: "url \<Rightarrow> page \<Rightarrow> 'r scraper" where
  "at_page u p = fresh\<lparr>driver := \<lparr>current_url = u, page_source = p\<rparr>\<rparr>"

text \<open>
  The end-to-end scenario of the specification: a first page with two rows, the first
  of which links a PDF, and an enabled next link; a second page with one row and a
  disabled next link. The same two pages serve as the listing of auto\_scraper.py, where
  the download cell of every row links a file and the pager is read from the soup.
\<close>

definition page_one :: page where
  "page_one =
     blank_page\<lparr>
       table := Some \<lparr>thead = [''Sr.No'', ''Title'', ''Date'', ''Download''],
                      tbody =
                        [\<lparr>cells = [''1'', ''Rules A'', ''01/01/2024'', ''Download'', ''(1 KB)''],
                          pdf_href = Some ''/files/a.pdf'', http_href = None,
                          dl_link = Some (''/files/a.pdf'', ''Download'')\<rparr>,
                         \<lparr>cells = [''2'', ''Rules B'', ''02/01/2024'', '''', ''''],
                          pdf_href = None, http_href = None, dl_link = None\<rparr>]\<rparr>,
       next_a := Some \<lparr>a_class = Some [], a_href = Some ''https://doe.gov.in/recruitment-rules?page=1''\<rparr>,
       pager := PagerNext (Some ''/recruitment-rules?page=1'')\<rparr>"

definition page_two :: page where
  "page_two =
     blank_page\<lparr>
       table := Some \<lparr>thead = [''Sr.No'', ''Title'', ''Date'', ''Download''],
                      tbody =
                        [\<lparr>cells = [''3'', ''Rules C'', ''03/01/2024'', ''Download'', ''(2 KB)''],
                          pdf_href = None, http_href = None,
                          dl_link = Some (''/files/c.pdf'', ''Download'')\<rparr>]\<rparr>,
       next_a := Some \<lparr>a_class = Some ''is-disabled'', a_href = None\<rparr>,
       pager := PagerNoNext\<rparr>"

definition two_page_env :: env where
  "two_page_env =
     dead_env\<lparr>
       site := (\<lambda>u.
         if u = ''https://doe.gov.in/recruitment-rules''
         then Loaded ''https://doe.gov.in/recruitment-rules'' page_one
         else if u = ''https://doe.gov.in/recruitment-rules?page=1''
         then Loaded ''https://doe.gov.in/recruitment-rules?page=1'' page_two
         else NavError),
       http := (\<lambda>u.
         if u = ''https://doe.gov.in/files/a.pdf'' then Response 200 ''%PDF a''
         else if u = ''https://doe.gov.in/files/c.pdf'' then Response 200 ''%PDF c''
         else ConnError)\<rparr>"

text \<open>What is of interest in the outcome of a run: the trace, whether it raised or not.\<close>

definition trace_of :: "((exn \<times> 'r scraper) + 'r scraper) option \<Rightarrow> event list option" where
  "trace_of res = map_option (\<lambda>r. case r of Inl (e, s) \<Rightarrow> log s | Inr s \<Rightarrow> log s) res"


section \<open>Properties\<close>


subsection \<open>Narrative mode: the container with the most text\<close>

lemma best_so_far_step:
  assumes "best_so_far g xs b bl"
    and "consider_cand g sel x (b, bl, bs) = (b', bl', bs')"
  shows "best_so_far g (xs @ [x]) b' bl'"
proof (cases "g x \<noteq> [] \<and> length (g x) > bl")
  case True
  with assms(2) have b': "b' = Some x" "bl' = length (g x)"
    by (auto simp: consider_cand_def Let_def)
  have all_le: "\<forall>j < length xs. length (g (xs ! j)) \<le> bl"
    using assms(1) by (auto simp: best_so_far_def all_set_conv_all_nth split: option.splits)
  have "\<forall>j < length (xs @ [x]). length (g ((xs @ [x]) ! j)) \<le> length (g x)"
    using all_le True by (auto simp: nth_append less_Suc_eq)
  moreover have "\<forall>j < length xs. length (g ((xs @ [x]) ! j)) < length (g x)"
    using all_le True by (auto simp: nth_append)
  ultimately show ?thesis
    unfolding best_so_far_def b' using True
    by (auto intro!: exI[of _ "length xs"])
next
  case False
  with assms(2) have b': "b' = b" "bl' = bl"
    by (auto simp: consider_cand_def Let_def)
  show ?thesis
  proof (cases b)
    case None
    with assms(1) False show ?thesis
      by (auto simp: best_so_far_def b')
  next
    case (Some c)
    with assms(1) obtain i where i: "i < length xs" "c = xs ! i"
      "\<forall>j < length xs. length (g (xs ! j)) \<le> bl" "\<forall>j < i. length (g (xs ! j)) < bl"
      and bl: "bl = length (g c)" "0 < bl"
      by (auto simp: best_so_far_def)
    have "length (g x) \<le> bl" using False bl by (cases "g x = []") auto
    with i have "\<forall>j < length (xs @ [x]). length (g ((xs @ [x]) ! j)) \<le> bl"
      by (auto simp: nth_append less_Suc_eq)
    moreover from i have "\<forall>j < i. length (g ((xs @ [x]) ! j)) < bl"
      by (auto simp: nth_append)
    moreover from i have "c = (xs @ [x]) ! i" "i < length (xs @ [x])"
      by (auto simp: nth_append)
    ultimately show ?thesis
      unfolding best_so_far_def b' Some using bl by auto
  qed
qed

lemma best_so_far_inner:
  "best_so_far g xs b bl \<Longrightarrow>
   fold (consider_cand g sel) ys (b, bl, bs) = (b', bl', bs') \<Longrightarrow>
   best_so_far g (xs @ ys) b' bl'"
proof (induction ys arbitrary: xs b bl bs)
  case Nil
  then show ?case by simp
next
  case (Cons y ys)
  obtain b1 bl1 bs1 where st: "consider_cand g sel y (b, bl, bs) = (b1, bl1, bs1)"
    by (cases "consider_cand g sel y (b, bl, bs)") auto
  from Cons.prems(1) st have "best_so_far g (xs @ [y]) b1 bl1"
    by (rule best_so_far_step)
  moreover from Cons.prems(2) st
  have "fold (consider_cand g sel) ys (b1, bl1, bs1) = (b', bl', bs')" by simp
  ultimately have "best_so_far g ((xs @ [y]) @ ys) b' bl'" by (rule Cons.IH)
  then show ?case by simp
qed

lemma best_so_far_outer:
  "best_so_far g xs b bl \<Longrightarrow>
   fold (\<lambda>sel st. fold (consider_cand g sel) (select sel) st) sels (b, bl, bs) = (b', bl', bs') \<Longrightarrow>
   best_so_far g (xs @ concat (map select sels)) b' bl'"
proof (induction sels arbitrary: xs b bl bs)
  case Nil
  then show ?case by simp
next
  case (Cons sel sels)
  obtain b1 bl1 bs1 where st: "fold (consider_cand g sel) (select sel) (b, bl, bs) = (b1, bl1, bs1)"
    by (cases "fold (consider_cand g sel) (select sel) (b, bl, bs)") auto
  from Cons.prems(1) st have "best_so_far g (xs @ select sel) b1 bl1"
    by (rule best_so_far_inner)
  moreover from Cons.prems(2) st
  have "fold (\<lambda>sel st. fold (consider_cand g sel) (select sel) st) sels (b1, bl1, bs1) = (b', bl', bs')"
    by simp
  ultimately have "best_so_far g ((xs @ select sel) @ concat (map select sels)) b' bl'"
    by (rule Cons.IH)
  then show ?case by simp
qed

lemma find_main_content_best:
  "\<exists>n. best_so_far g (candidates select) (find_main_content select g) n"
proof -
  obtain b bl bs where st:
    "fold (\<lambda>sel st. fold (consider_cand g sel) (select sel) st) selectors (None, 0, None) = (b, bl, bs)"
    by (cases "fold (\<lambda>sel st. fold (consider_cand g sel) (select sel) st) selectors (None, 0, None)") auto
  have "best_so_far g [] None 0" by (simp add: best_so_far_def)
  from best_so_far_outer[OF this st] have "best_so_far g (candidates select) b bl"
    by (simp add: candidates_def)
  moreover have "find_main_content select g = b"
    by (simp add: find_main_content_def st)
  ultimately show ?thesis by blast
qed

text \<open>
  Claim C7. Among all elements matching the ordered list of candidate selectors,
  \<open>find_main_content\<close> returns the one with the most extracted text, and of
  several with the same, greatest length the one met first in selector order (then
  document order): every candidate before the chosen one has strictly shorter text, none
  has longer text. When no candidate has any text the result is \<open>None\<close>.
\<close>

theorem find_main_content_longest_earliest:
  "((\<forall>c \<in> set (candidates select). get_text c = []) \<longrightarrow>
      find_main_content select get_text = None) \<and>
   ((\<exists>c \<in> set (candidates select). get_text c \<noteq> []) \<longrightarrow>
      (\<exists>i < length (candidates select).
         find_main_content select get_text = Some (candidates select ! i) \<and>
         (\<forall>j < length (candidates select).
            length (get_text (candidates select ! j)) \<le> length (get_text (candidates select ! i))) \<and>
         (\<forall>j < i.
            length (get_text (candidates select ! j)) < length (get_text (candidates select ! i)))))"
proof -
  obtain n where n: "best_so_far get_text (candidates select) (find_main_content select get_text) n"
    using find_main_content_best by blast
  show ?thesis
  proof (cases "find_main_content select get_text")
    case None
    with n show ?thesis by (auto simp: best_so_far_def)
  next
    case (Some c)
    with n obtain i where i: "i < length (candidates select)" "c = candidates select ! i"
      and "n = length (get_text c)" "0 < n"
      "\<forall>j < length (candidates select). length (get_text (candidates select ! j)) \<le> n"
      "\<forall>j < i. length (get_text (candidates select ! j)) < n"
      by (auto simp: best_so_far_def)
    moreover from i have "candidates select ! i \<in> set (candidates select)"
      by simp
    ultimately show ?thesis using Some i by auto
  qed
qed

text \<open>The example of the specification: 500 characters win over 50.\<close>

lemma two_containers_candidates:
  "candidates two_containers = [replicate 50 CHR ''a'', replicate 500 CHR ''b'']"
  by (simp add: candidates_def selectors_def two_containers_def)

lemma find_main_content_500_over_50:
  "find_main_content two_containers id = Some (replicate 500 CHR ''b'')"
  by (simp add: find_main_content_def selectors_def
      two_containers_def consider_cand_def)

theorem find_main_content_longest_earliest_witness:
  "(\<exists>c \<in> set (candidates two_containers). id c \<noteq> []) \<and>
   (\<exists>i < length (candidates two_containers).
      find_main_content two_containers id = Some (candidates two_containers ! i) \<and>
      (\<forall>j < length (candidates two_containers).
         length (id (candidates two_containers ! j)) \<le> length (id (candidates two_containers ! i))) \<and>
      (\<forall>j < i.
         length (id (candidates two_containers ! j)) < length (id (candidates two_containers ! i))))"
proof -
  have h: "\<exists>c \<in> set (candidates two_containers). id c \<noteq> []"
    by (simp add: two_containers_candidates)
  with find_main_content_longest_earliest [of two_containers id] show ?thesis by blast
qed


subsection \<open>Tabular mode: the default headers\<close>

lemma row_data_positional:
  assumes d: "distinct hs" and i: "i < length hs"
  shows "row_data hs cs (hs ! i) = (if i < length cs then Some (cs ! i) else None)"
proof -
  define n where "n = min (length hs) (length cs)"
  have z: "zip hs cs = zip (take n hs) (take n cs)"
    by (simp add: n_def take_zip[symmetric])
  have len: "length (take n hs) = length (take n cs)" by (simp add: n_def)
  have dt: "distinct (take n hs)" using d by simp
  have keys: "map fst (zip hs cs) = take n hs"
    by (simp add: map_fst_zip_take n_def)
  have "distinct (map fst (rev (zip hs cs)))"
    by (simp add: rev_map[symmetric] keys dt)
  moreover have "distinct (map fst (zip hs cs))" by (simp add: keys dt)
  ultimately have m: "map_of (rev (zip hs cs)) = map_of (zip hs cs)"
    by (simp add: map_of_inject_set)
  show ?thesis
  proof (cases "i < length cs")
    case True
    then have "i < n" using i by (simp add: n_def)
    then have "i < length (take n cs)" using True by simp
    then have "map_of (zip (take n hs) (take n cs)) (take n hs ! i) = Some (take n cs ! i)"
      by (rule map_of_zip_nth[OF len dt])
    with \<open>i < n\<close> True show ?thesis by (simp add: row_data_def m z[symmetric])
  next
    case False
    then have n: "n = length cs" using i by (simp add: n_def)
    have "hs ! i \<notin> set (take n hs)"
    proof
      assume "hs ! i \<in> set (take n hs)"
      then obtain j where j: "j < n" "j < length hs" "hs ! j = hs ! i"
        by (auto simp: in_set_conv_nth)
      with d i have "j = i" by (simp add: nth_eq_iff_index_eq)
      with j False n show False by simp
    qed
    then have "map_of (zip (take n hs) (take n cs)) (hs ! i) = None"
      using map_of_zip_is_None[OF len] by simp
    with False show ?thesis by (simp add: row_data_def m z[symmetric])
  qed
qed

lemma content_repr_positional:
  assumes "distinct hs"
  shows "content_repr hs (row_data hs cs) = positional hs cs"
proof -
  have "map (\<lambda>h. h @ '': '' @ get_or_empty (row_data hs cs) h) hs
        = map (\<lambda>i. hs ! i @ '': '' @ get_or_empty (row_data hs cs) (hs ! i)) [0..<length hs]"
    by (rule nth_equalityI) simp_all
  also have "\<dots> = map (\<lambda>i. hs ! i @ '': '' @ (if i < length cs then cs ! i else [])) [0..<length hs]"
    using assms by (auto simp: get_or_empty_def row_data_positional)
  finally show ?thesis by (simp add: content_repr_def positional_def)
qed

text \<open>
  With the default headers the Title column is the second cell, so the three-way choice
  of \<open>derive_title\<close> comes down to the length of the row.
\<close>

lemma derive_title_default:
  "derive_title (row_data default_headers cs) cs = (if length cs > 1 then cs ! 1 else ''Untitled'')"
proof -
  have "row_data default_headers cs (default_headers ! 1) = (if 1 < length cs then Some (cs ! 1) else None)"
    by (rule row_data_positional) (simp_all add: default_headers_def)
  then show ?thesis by (simp add: derive_title_def default_headers_def)
qed

lemma derive_title_rti_default:
  "derive_title (row_data rti_default_headers cs) cs = (if length cs > 1 then cs ! 1 else ''Untitled'')"
proof -
  have "row_data rti_default_headers cs (rti_default_headers ! 1) = (if 1 < length cs then Some (cs ! 1) else None)"
    by (rule row_data_positional) (simp_all add: rti_default_headers_def)
  then show ?thesis by (simp add: derive_title_def rti_default_headers_def)
qed

lemma rows_fold_extract_row:
  "rows (fold (extract_row env hs sec u) trs s) =
   rows s @ map (\<lambda>tr. table_row env sec u tr (derive_title (row_data hs (cells tr)) (cells tr))
                      (content_repr hs (row_data hs (cells tr))))
              (filter (\<lambda>tr. cells tr \<noteq> []) trs)"
  by (induction trs arbitrary: s) (simp_all add: extract_row_def table_row_def Let_def)

lemma rows_fold_rti_extract_row:
  "rows (fold (rti_extract_row env hs sec u) trs s) =
   rows s @ map (\<lambda>tr. table_row env sec u tr (derive_title (row_data hs (cells tr)) (cells tr))
                      (content_repr hs (row_data hs (cells tr)) @
                       (case http_href tr of None \<Rightarrow> []
                        | Some h \<Rightarrow> if h \<noteq> [] then '' | Hyperlink: '' @ h else [])))
              (filter (\<lambda>tr. cells tr \<noteq> []) trs)"
  by (induction trs arbitrary: s)
     (simp_all add: rti_extract_row_def table_row_def Let_def split: option.splits)

text \<open>
  Claim C8, as amended. For a table without header cells, \<open>extract_table\<close> of
  rec\_scraper.py uses the four headers Sr.No, Title, Date, Download, and
  \<open>extract_table\<close> of rti\_scraper.py the five headers Sr.No, Title, Date, Download,
  Hyperlink. Both are total: every row with at least one cell yields one record, whose
  content pairs the headers with the cells by position (a header without a cell gets the
  empty string) and whose title is the second cell, which is the one under Title, or
  Untitled for a row with a single cell. The rti scraper appends the row's first
  absolute link, when it has one.
\<close>

theorem extract_table_fallback_headers:
  assumes "table soup = Some t" and "thead t = []"
  shows
    "rows (extract_table env soup sec u s) =
       rows s @ map (\<lambda>tr. table_row env sec u tr
                            (if length (cells tr) > 1 then cells tr ! 1 else ''Untitled'')
                            (positional [''Sr.No'', ''Title'', ''Date'', ''Download''] (cells tr)))
                  (filter (\<lambda>tr. cells tr \<noteq> []) (tbody t)) \<and>
     rows (rti_extract_table env soup sec u s) =
       rows s @ map (\<lambda>tr. table_row env sec u tr
                            (if length (cells tr) > 1 then cells tr ! 1 else ''Untitled'')
                            (positional [''Sr.No'', ''Title'', ''Date'', ''Download'', ''Hyperlink'']
                               (cells tr) @
                             (case http_href tr of None \<Rightarrow> []
                              | Some h \<Rightarrow> if h \<noteq> [] then '' | Hyperlink: '' @ h else [])))
                  (filter (\<lambda>tr. cells tr \<noteq> []) (tbody t))"
proof -
  have d4: "distinct default_headers" by (simp add: default_headers_def)
  have d5: "distinct rti_default_headers" by (simp add: rti_default_headers_def)
  have "rows (extract_table env soup sec u s) =
        rows s @ map (\<lambda>tr. table_row env sec u tr
                            (if length (cells tr) > 1 then cells tr ! 1 else ''Untitled'')
                            (positional default_headers (cells tr)))
                  (filter (\<lambda>tr. cells tr \<noteq> []) (tbody t))"
    using assms
    by (simp add: extract_table_def headers_of_def rows_fold_extract_row
        derive_title_default content_repr_positional[OF d4])
  moreover have "rows (rti_extract_table env soup sec u s) =
       rows s @ map (\<lambda>tr. table_row env sec u tr
                            (if length (cells tr) > 1 then cells tr ! 1 else ''Untitled'')
                            (positional rti_default_headers (cells tr) @
                             (case http_href tr of None \<Rightarrow> []
                              | Some h \<Rightarrow> if h \<noteq> [] then '' | Hyperlink: '' @ h else [])))
                  (filter (\<lambda>tr. cells tr \<noteq> []) (tbody t))"
    using assms
    by (simp add: rti_extract_table_def rti_headers_of_def rows_fold_rti_extract_row
        derive_title_rti_default content_repr_positional[OF d5])
  ultimately show ?thesis
    by (simp add: default_headers_def rti_default_headers_def)
qed

lemma upt5: "[0..<5] = [0,1,2,3,4]" "[0..<4] = [0,1,2,3]"
  by (simp_all add: upt_rec)

theorem extract_table_fallback_headers_witness:
  "table headerless_page = Some headerless_table \<and> thead headerless_table = [] \<and>
   map content (rows (extract_table dead_env headerless_page ''Main Section'' ''u'' fresh)) =
     [''Sr.No: 1 | Title: Rules 2020 | Date: 01/02/2020 | Download: Download''] \<and>
   map title (rows (rti_extract_table dead_env headerless_page ''Main Section'' ''u'' fresh)) =
     [''Rules 2020'']"
proof -
  have h1: "table headerless_page = Some headerless_table"
    by (simp add: headerless_page_def)
  have h2: "thead headerless_table = []"
    by (simp add: headerless_table_def)
  show ?thesis
    using extract_table_fallback_headers [OF h1 h2, of dead_env "''Main Section''" "''u''" fresh]
    by (simp add: h1 h2 headerless_table_def fresh_def table_row_def positional_def upt5)
qed

text \<open>
  Claim C8 as stated fails for rti\_scraper.py: on a headerless table its fallback is not
  the four-element header list, and a fifth cell appears in the content under Hyperlink.
\<close>

theorem rti_fallback_counterexample:
  "rti_headers_of headerless_table \<noteq> [''Sr.No'', ''Title'', ''Date'', ''Download''] \<and>
   map content (rows (rti_extract_table dead_env headerless_page ''Main Section'' ''u'' fresh)) =
     [''Sr.No: 1 | Title: Rules 2020 | Date: 01/02/2020 | Download: Download | Hyperlink: portal'']"
  by (simp add: rti_headers_of_def rti_default_headers_def headerless_table_def
      headerless_page_def blank_page_def rti_extract_table_def rti_extract_row_def fresh_def
      row_data_def content_repr_def get_or_empty_def Let_def)


subsection \<open>The result sink: one schema for all rows\<close>

lemma map_of_setdefault:
  "map_of (setdefault k v r) c = (if map_of r c = None \<and> c = k then Some v else map_of r c)"
  by (auto simp: setdefault_def map_add_def split: option.splits)

lemma get_fold_setdefault:
  "(case map_of (fold (\<lambda>f r. setdefault f [] r) fs r) c of None \<Rightarrow> [] | Some v \<Rightarrow> v)
   = (case map_of r c of None \<Rightarrow> [] | Some v \<Rightarrow> v)"
proof (induction fs arbitrary: r)
  case Nil
  show ?case by simp
next
  case (Cons f fs)
  have "(case map_of (fold (\<lambda>f r. setdefault f [] r) fs (setdefault f [] r)) c of
           None \<Rightarrow> [] | Some v \<Rightarrow> v)
        = (case map_of (setdefault f [] r) c of None \<Rightarrow> [] | Some v \<Rightarrow> v)"
    by (rule Cons.IH)
  also have "\<dots> = (case map_of r c of None \<Rightarrow> [] | Some v \<Rightarrow> v)"
    by (auto simp: map_of_setdefault split: option.splits)
  finally show ?case by simp
qed

lemma set_df_columns: "set (df_columns rs) = (\<Union>r \<in> set rs. fst ` set r)"
  by (simp add: df_columns_def)

lemma csv_cell_member:
  assumes "r \<in> set rs"
  shows "csv_cell (df_columns rs) r c = (case map_of r c of None \<Rightarrow> [] | Some v \<Rightarrow> v)"
proof (cases "c \<in> set (df_columns rs)")
  case True
  then show ?thesis by (simp add: csv_cell_def)
next
  case False
  with assms have "c \<notin> fst ` set r" by (auto simp: set_df_columns)
  then have "map_of r c = None" by (simp add: map_of_eq_None_iff)
  with False show ?thesis by (simp add: csv_cell_def)
qed

text \<open>The file that \<open>save\<close> writes, cell by cell, for any value of \<open>table_headers\<close>.\<close>

lemma save_as_writes:
  assumes "rows s \<noteq> []"
  shows "files (save_as stem env th s) (path_join OUT_DIR (stem @ now env @ ''.csv''))
         = Some (Csv (final_cols th #
              map (\<lambda>r. map (\<lambda>c. case map_of r c of None \<Rightarrow> [] | Some v \<Rightarrow> v) (final_cols th))
                (rows s)))"
proof -
  define rs where "rs = map (\<lambda>r. fold (\<lambda>f r. setdefault f [] r) OCAC_META_FIELDS r) (rows s)"
  have "map (\<lambda>r. map (csv_cell (df_columns rs) r) (final_cols th)) rs
        = map (\<lambda>r. map (\<lambda>c. case map_of r c of None \<Rightarrow> [] | Some v \<Rightarrow> v) (final_cols th)) rs"
    by (rule map_cong[OF refl]) (simp add: csv_cell_member)
  also have "\<dots> = map (\<lambda>r. map (\<lambda>c. case map_of r c of None \<Rightarrow> [] | Some v \<Rightarrow> v) (final_cols th))
                     (rows s)"
    by (simp add: rs_def get_fold_setdefault comp_def)
  finally show ?thesis
    using assms by (simp add: save_as_def Let_def rs_def)
qed

text \<open>
  Claim C3, as amended. The columns are not computed from the records: in a run
  \<open>table_headers\<close> is empty, so when there is at least one record \<open>save\<close> of
  ocac\_scraper.py and of pfd\_scraper.py writes a header line of the five fixed leading
  metadata fields followed by the five fixed trailing url and asset fields, and one line
  per record. Every line has these ten cells, whatever fields the record behind it
  carries; the cell under a column is the record's value for that field, or the empty
  string when the record has no such field. A page-specific field that a record carries
  is not among the columns and is written for no record.
\<close>

theorem save_fixed_columns:
  assumes "rows s \<noteq> []"
  shows "\<exists>body.
           files (save env [] s)
             (path_join OUT_DIR (''office_chief_adviser_cost_'' @ now env @ ''.csv''))
             = Some (Csv ((meta_left @ meta_right) # body)) \<and>
           files (pfd_save env [] s)
             (path_join OUT_DIR (''public_finance_states_division_'' @ now env @ ''.csv''))
             = Some (Csv ((meta_left @ meta_right) # body)) \<and>
           length (meta_left @ meta_right) = 10 \<and>
           length body = length (rows s) \<and>
           (\<forall>line \<in> set body. length line = 10) \<and>
           (\<forall>i < length (rows s). \<forall>j < 10.
              body ! i ! j =
                (case map_of (rows s ! i) ((meta_left @ meta_right) ! j) of
                   None \<Rightarrow> [] | Some v \<Rightarrow> v))"
proof -
  define cols where "cols = meta_left @ meta_right"
  define body where
    "body = map (\<lambda>r. map (\<lambda>c. case map_of r c of None \<Rightarrow> [] | Some v \<Rightarrow> v) cols) (rows s)"
  have ten: "length cols = 10" by (simp add: cols_def meta_left_def meta_right_def)
  have "files (save env [] s)
          (path_join OUT_DIR (''office_chief_adviser_cost_'' @ now env @ ''.csv''))
        = Some (Csv (cols # body))"
    using save_as_writes[OF assms, of "''office_chief_adviser_cost_''" env "[]"]
    by (simp add: save_def final_cols_def cols_def body_def)
  moreover have "files (pfd_save env [] s)
          (path_join OUT_DIR (''public_finance_states_division_'' @ now env @ ''.csv''))
        = Some (Csv (cols # body))"
    using save_as_writes[OF assms, of "''public_finance_states_division_''" env "[]"]
    by (simp add: pfd_save_def final_cols_def cols_def body_def)
  moreover have "length body = length (rows s)" by (simp add: body_def)
  moreover have "\<forall>line \<in> set body. length line = 10" using ten by (auto simp: body_def)
  moreover have "\<forall>i < length (rows s). \<forall>j < 10.
      body ! i ! j = (case map_of (rows s ! i) (cols ! j) of None \<Rightarrow> [] | Some v \<Rightarrow> v)"
    using ten by (simp add: body_def)
  ultimately show ?thesis using ten unfolding cols_def by blast
qed

text \<open>
  Two heterogeneous records as a run writes them: ten columns, the fields they lack
  empty.
\<close>

lemma save_mixed:
  "files (save dead_env [] mixed) ''output/office_chief_adviser_cost_20250101_000000.csv''
   = Some (Csv
       [ [''section_type'', ''section_name'', ''element_type'', ''title'', ''content'',
         ''url'', ''image_url'', ''pdf_url'', ''local_image_path'', ''local_pdf_path''],
        [''Divisions'', '''', '''', ''Paragraph 1'', ''Costing'', '''', '''', '''', '''', ''''],
        [''Breadcrumb'', '''', '''', ''Home'', '''', ''u'', '''', '''', '''', ''''] ])"
proof -
  have "rows mixed \<noteq> []" by (simp add: mixed_def fresh_def)
  from save_as_writes[OF this, of "''office_chief_adviser_cost_''" dead_env "[]"] show ?thesis
    by (simp add: save_def mixed_def fresh_def final_cols_def meta_left_def meta_right_def
        path_join_def OUT_DIR_def dead_env_def)
qed

theorem save_fixed_columns_witness:
  "rows mixed \<noteq> [] \<and>
   (\<exists>body.
      files (save dead_env [] mixed)
        (path_join OUT_DIR (''office_chief_adviser_cost_'' @ now dead_env @ ''.csv''))
        = Some (Csv ((meta_left @ meta_right) # body)) \<and>
      files (pfd_save dead_env [] mixed)
        (path_join OUT_DIR (''public_finance_states_division_'' @ now dead_env @ ''.csv''))
        = Some (Csv ((meta_left @ meta_right) # body)) \<and>
      length (meta_left @ meta_right) = 10 \<and>
      length body = length (rows mixed) \<and>
      (\<forall>line \<in> set body. length line = 10) \<and>
      (\<forall>i < length (rows mixed). \<forall>j < 10.
         body ! i ! j =
           (case map_of (rows mixed ! i) ((meta_left @ meta_right) ! j) of
              None \<Rightarrow> [] | Some v \<Rightarrow> v)))"
proof -
  have h: "rows mixed \<noteq> []" by (simp add: mixed_def fresh_def)
  from h save_fixed_columns [OF h, of dead_env] show ?thesis by blast
qed

text \<open>
  Claim C3 as stated fails: the first of the two records carries the page-specific field
  Remarks and the second does not, yet the written file has no column for it. The field
  is left out for both records, not rendered empty for the one that lacks it.
\<close>

theorem save_drops_extra_field_counterexample:
  "map_of (rows mixed ! 0) ''Remarks'' = Some ''draft'' \<and>
   map_of (rows mixed ! 1) ''Remarks'' = None \<and>
   files (save dead_env [] mixed) ''output/office_chief_adviser_cost_20250101_000000.csv''
   = Some (Csv
       [ [''section_type'', ''section_name'', ''element_type'', ''title'', ''content'',
         ''url'', ''image_url'', ''pdf_url'', ''local_image_path'', ''local_pdf_path''],
        [''Divisions'', '''', '''', ''Paragraph 1'', ''Costing'', '''', '''', '''', '''', ''''],
        [''Breadcrumb'', '''', '''', ''Home'', '''', ''u'', '''', '''', '''', ''''] ])"
proof -
  have "map_of (rows mixed ! 0) ''Remarks'' = Some ''draft''"
    and "map_of (rows mixed ! 1) ''Remarks'' = None"
    by (simp_all add: mixed_def fresh_def)
  then show ?thesis using save_mixed by simp
qed


subsection \<open>The result sink: a run without records\<close>

text \<open>
  With zero records the name of the file is not looked at: \<open>save\<close> of
  pfd\_scraper.py is skipped in the same way as \<open>save\<close> of ocac\_scraper.py.
\<close>

lemma pfd_save_no_rows:
  "rows s = [] \<Longrightarrow> pfd_save env table_headers s = save env table_headers s"
  by (simp add: pfd_save_def save_def save_as_def)

text \<open>
  Claim C4, as amended. With zero records, \<open>save\<close> of ocac\_scraper.py and
  pfd\_scraper.py is skipped: it returns normally and leaves the files, the trace and
  everything else as they were. \<open>save_csv\<close> of rec\_scraper.py has no test for an
  empty list: it returns normally too, but writes a file that holds the header line alone.
\<close>

theorem save_skipped_without_rows:
  assumes "rows s = []" and "rows t = []"
  shows "save env table_headers s = s \<and>
         files (save_csv env t) (path_join OUT_DIR (''recruitment_rules_'' @ now env @ ''.csv''))
           = Some (Csv [META_FIELDS])"
  using assms by (simp add: save_def save_as_def save_csv_def Let_def)

theorem save_skipped_without_rows_witness:
  "rows (fresh :: drow scraper) = [] \<and> rows (fresh :: row scraper) = [] \<and>
   save dead_env [] fresh = fresh \<and>
   files (save_csv dead_env fresh) (path_join OUT_DIR (''recruitment_rules_'' @ now dead_env @ ''.csv''))
     = Some (Csv [META_FIELDS])"
proof -
  have h1: "rows (fresh :: drow scraper) = []" and h2: "rows (fresh :: row scraper) = []"
    by (simp_all add: fresh_def)
  from h1 h2 save_skipped_without_rows [OF h1 h2, of dead_env "[]"] show ?thesis by blast
qed

text \<open>
  Claim C4 as stated fails for rec\_scraper.py: a run that collected nothing still
  creates an output file.
\<close>

theorem save_csv_empty_counterexample:
  "rows (fresh :: row scraper) = [] \<and>
   files (fresh :: row scraper) ''output/recruitment_rules_20250101_000000.csv'' = None \<and>
   files (save_csv dead_env fresh) ''output/recruitment_rules_20250101_000000.csv''
     = Some (Csv [ [''section_type'', ''section_name'', ''element_type'', ''title'', ''content'',
                   ''url'', ''pdf_url'', ''local_pdf_path''] ])"
  by (simp add: save_csv_def fresh_def dead_env_def path_join_def OUT_DIR_def META_FIELDS_def Let_def)


subsection \<open>Page loading: what safe\_get swallows\<close>

lemma poll_ready_never_raises: "poll_ready ps = Inr ()"
  by (induction ps rule: poll_ready.induct) simp_all

lemma after_load_raises_iff: "isl (after_load env u s) \<longleftrightarrow> wait_for env u = WaitRaises"
  by (simp add: after_load_def poll_ready_never_raises split: wait_result.splits)

lemma after_load_returns:
  "wait_for env u \<noteq> WaitRaises \<Longrightarrow> after_load env u s = Inr s"
  by (simp add: after_load_def poll_ready_never_raises split: wait_result.splits)

text \<open>
  Claim C5, as amended. \<open>safe_get\<close> swallows the timeout of a navigation and nothing
  else that \<open>driver.get\<close> raises. The short \<open>safe_get\<close> of rec\_scraper.py raises to
  its caller exactly when \<open>driver.get\<close> raises something other than a timeout or when
  \<open>window.stop()\<close> fails after a timeout. The longer \<open>safe_get\<close> of ocac\_scraper.py
  raises exactly when \<open>driver.get\<close> raises something other than a timeout or when the
  final wait raises something other than a timeout; a failing \<open>window.stop()\<close>, failing
  readiness polls and a timeout of the final wait are swallowed. After a navigation
  timeout that could be stopped, both return with the partial document as the current one.
\<close>

theorem safe_get_raises_iff:
  "(isl (safe_get env u s) \<longleftrightarrow>
      site env u = NavError \<or> (\<exists>cu p. site env u = TimedOut cu p False)) \<and>
   (isl (safe_get_wait env u s) \<longleftrightarrow>
      site env u = NavError \<or> wait_for env u = WaitRaises) \<and>
   (site env u = TimedOut cu p True \<longrightarrow>
      safe_get env u s =
        Inr (s\<lparr>log := log s @ [Nav u], driver := \<lparr>current_url = cu, page_source = p\<rparr>\<rparr>) \<and>
      (wait_for env u \<noteq> WaitRaises \<longrightarrow>
         safe_get_wait env u s =
           Inr (s\<lparr>log := log s @ [Nav u], driver := \<lparr>current_url = cu, page_source = p\<rparr>\<rparr>)))"
proof -
  have "isl (safe_get env u s) \<longleftrightarrow>
      site env u = NavError \<or> (\<exists>cu p. site env u = TimedOut cu p False)"
    by (cases "site env u") (simp_all add: safe_get_def Let_def)
  moreover have "isl (safe_get_wait env u s) \<longleftrightarrow>
      site env u = NavError \<or> wait_for env u = WaitRaises"
    by (cases "site env u") (simp_all add: safe_get_wait_def Let_def after_load_raises_iff)
  moreover have "site env u = TimedOut cu p True \<longrightarrow>
      safe_get env u s =
        Inr (s\<lparr>log := log s @ [Nav u], driver := \<lparr>current_url = cu, page_source = p\<rparr>\<rparr>)"
    by (simp add: safe_get_def Let_def)
  moreover have "site env u = TimedOut cu p True \<longrightarrow> wait_for env u \<noteq> WaitRaises \<longrightarrow>
      safe_get_wait env u s =
        Inr (s\<lparr>log := log s @ [Nav u], driver := \<lparr>current_url = cu, page_source = p\<rparr>\<rparr>)"
    by (simp add: safe_get_wait_def Let_def after_load_returns)
  ultimately show ?thesis by blast
qed

theorem safe_get_raises_iff_witness:
  "site slow_env ''https://doe.gov.in/recruitment-rules''
     = TimedOut ''https://doe.gov.in/recruitment-rules'' blank_page True \<and>
   wait_for slow_env ''https://doe.gov.in/recruitment-rules'' \<noteq> WaitRaises \<and>
   \<not> isl (safe_get slow_env ''https://doe.gov.in/recruitment-rules'' (fresh :: row scraper)) \<and>
   \<not> isl (safe_get_wait slow_env ''https://doe.gov.in/recruitment-rules'' (fresh :: row scraper)) \<and>
   safe_get_wait slow_env ''https://doe.gov.in/recruitment-rules'' (fresh :: row scraper) =
     Inr (fresh\<lparr>log := [Nav ''https://doe.gov.in/recruitment-rules''],
               driver := \<lparr>current_url = ''https://doe.gov.in/recruitment-rules'',
                          page_source = blank_page\<rparr>\<rparr>)"
proof -
  have h1: "site slow_env ''https://doe.gov.in/recruitment-rules''
     = TimedOut ''https://doe.gov.in/recruitment-rules'' blank_page True"
    by (simp add: slow_env_def)
  have h2: "wait_for slow_env ''https://doe.gov.in/recruitment-rules'' \<noteq> WaitRaises"
    by (simp add: slow_env_def)
  have l: "log (fresh :: row scraper) = []" by (simp add: fresh_def)
  from safe_get_raises_iff [of slow_env "''https://doe.gov.in/recruitment-rules''"
      "fresh :: row scraper" "''https://doe.gov.in/recruitment-rules''" blank_page] h1 h2 l
  show ?thesis by simp
qed

text \<open>
  Claim C5 as stated fails: a navigation error that is not a timeout (the host cannot be
  reached, say) is raised to the caller by both variants of \<open>safe_get\<close>.
\<close>

theorem safe_get_raises_counterexample:
  "safe_get dead_env ''https://doe.gov.in/recruitment-rules'' (fresh :: row scraper) =
     Inl (OtherException, fresh\<lparr>log := [Nav ''https://doe.gov.in/recruitment-rules'']\<rparr>) \<and>
   safe_get_wait dead_env ''https://doe.gov.in/office-chief-adviser-cost'' (fresh :: drow scraper) =
     Inl (OtherException, fresh\<lparr>log := [Nav ''https://doe.gov.in/office-chief-adviser-cost'']\<rparr>)"
  by (simp add: safe_get_def safe_get_wait_def dead_env_def fresh_def Let_def)


subsection \<open>Asset download: two calls for one URL\<close>

subsubsection \<open>The ways through the loop body\<close>

lemma download_row_skip:
  "\<not> wanted (pdf_url r) \<Longrightarrow> download_row env r fs lg = (r, fs, lg)"
  by (auto simp: download_row_def wanted_def Let_def)

lemma download_row_hit:
  "wanted (pdf_url r) \<Longrightarrow> path_exists fs (dest (pdf_url r)) \<Longrightarrow>
   download_row env r fs lg = (r\<lparr>local_pdf_path := dest (pdf_url r)\<rparr>, fs, lg)"
  by (simp add: download_row_def wanted_def dest_def Let_def)

lemma download_row_ok:
  "wanted (pdf_url r) \<Longrightarrow> \<not> path_exists fs (dest (pdf_url r)) \<Longrightarrow>
   http env (pdf_url r) = Response 200 body \<Longrightarrow>
   disk env (dest (pdf_url r)) body = Written \<Longrightarrow>
   download_row env r fs lg =
     (r\<lparr>local_pdf_path := dest (pdf_url r)\<rparr>, fs(dest (pdf_url r) \<mapsto> Bytes body),
      lg @ [HttpGet (pdf_url r)])"
  by (simp add: download_row_def wanted_def dest_def Let_def)

lemma download_row_fail:
  "wanted (pdf_url r) \<Longrightarrow> \<not> path_exists fs (dest (pdf_url r)) \<Longrightarrow>
   http env (pdf_url r) = ConnError \<or>
     (\<exists>code body. http env (pdf_url r) = Response code body \<and> code \<noteq> 200) \<Longrightarrow>
   download_row env r fs lg = (r, fs, lg @ [HttpGet (pdf_url r)])"
  by (auto simp: download_row_def wanted_def dest_def Let_def)

text \<open>The body arrives and cannot be written: the row is left without a path.\<close>

lemma download_row_open_fails:
  "wanted (pdf_url r) \<Longrightarrow> \<not> path_exists fs (dest (pdf_url r)) \<Longrightarrow>
   http env (pdf_url r) = Response 200 body \<Longrightarrow>
   disk env (dest (pdf_url r)) body = OpenFails \<Longrightarrow>
   download_row env r fs lg = (r, fs, lg @ [HttpGet (pdf_url r)])"
  by (simp add: download_row_def wanted_def dest_def Let_def)

lemma download_row_write_fails:
  "wanted (pdf_url r) \<Longrightarrow> \<not> path_exists fs (dest (pdf_url r)) \<Longrightarrow>
   http env (pdf_url r) = Response 200 body \<Longrightarrow>
   disk env (dest (pdf_url r)) body = WriteFails part \<Longrightarrow>
   download_row env r fs lg =
     (r, fs(dest (pdf_url r) \<mapsto> Bytes part), lg @ [HttpGet (pdf_url r)])"
  by (simp add: download_row_def wanted_def dest_def Let_def)

text \<open>manuals\_scraper.py leaves out the test for an empty URL, which the suffix test implies.\<close>

lemma manuals_download_row_eq: "manuals_download_row env r fs lg = download_row env r fs lg"
proof (cases "pdf_url r = []")
  case True
  then show ?thesis
    by (simp add: manuals_download_row_def download_row_def endswith_def lower_def)
next
  case False
  then show ?thesis
    by (simp add: manuals_download_row_def download_row_def Let_def)
qed

subsubsection \<open>What one pass over the rows keeps and adds\<close>

lemma path_exists_upd: "path_exists fs p \<Longrightarrow> path_exists (fs(q \<mapsto> c)) p"
  by (auto simp: path_exists_def)

text \<open>
  Whatever the server and the disk do, one step keeps the files that are there, and asks
  the network at most for the row's own URL, and only when nothing is at its destination.
\<close>

lemma download_row_effect:
  assumes "download_row env r fs lg = (r', fs', lg')"
  shows "(\<forall>p c. fs p = Some c \<longrightarrow> fs' p = Some c) \<and>
         (\<forall>p. path_exists fs p \<longrightarrow> path_exists fs' p) \<and>
         (\<exists>new. lg' = lg @ new \<and>
            (\<forall>e \<in> set new. e = HttpGet (pdf_url r) \<and> \<not> path_exists fs (dest (pdf_url r))))"
proof (cases "wanted (pdf_url r)")
  case False
  with assms show ?thesis by (simp add: download_row_skip)
next
  case w: True
  show ?thesis
  proof (cases "path_exists fs (dest (pdf_url r))")
    case True
    with w assms show ?thesis by (simp add: download_row_hit)
  next
    case ne: False
    then have none: "fs (dest (pdf_url r)) = None" by (simp add: path_exists_def)
    show ?thesis
    proof (cases "\<exists>body. http env (pdf_url r) = Response 200 body")
      case True
      then obtain body where h: "http env (pdf_url r) = Response 200 body" by blast
      show ?thesis
      proof (cases "disk env (dest (pdf_url r)) body")
        case Written
        from download_row_ok[OF w ne h this, of lg] assms
        have "fs' = fs(dest (pdf_url r) \<mapsto> Bytes body)" "lg' = lg @ [HttpGet (pdf_url r)]"
          by simp_all
        with none ne show ?thesis by (auto simp: path_exists_upd)
      next
        case OpenFails
        from download_row_open_fails[OF w ne h this, of lg] assms ne show ?thesis by simp
      next
        case (WriteFails part)
        from download_row_write_fails[OF w ne h this, of lg] assms
        have "fs' = fs(dest (pdf_url r) \<mapsto> Bytes part)" "lg' = lg @ [HttpGet (pdf_url r)]"
          by simp_all
        with none ne show ?thesis by (auto simp: path_exists_upd)
      qed
    next
      case False
      then have "http env (pdf_url r) = ConnError \<or>
         (\<exists>code body. http env (pdf_url r) = Response code body \<and> code \<noteq> 200)"
        by (cases "http env (pdf_url r)") auto
      from download_row_fail[OF w ne this, of lg] assms ne show ?thesis by simp
    qed
  qed
qed

text \<open>
  Once a file is at \<open>p\<close>, a pass over any rows leaves it as it is, asks the network
  for no URL whose destination is \<open>p\<close>, and gives every row with that destination the
  path \<open>p\<close>.
\<close>

lemma download_rows_with_file:
  assumes "download_rows env rs fs lg = (out, fs', lg')" and "fs p = Some c"
  shows "fs' p = Some c \<and> length out = length rs \<and>
         (\<exists>new. lg' = lg @ new \<and> (\<forall>e \<in> set new. \<exists>u. e = HttpGet u \<and> dest u \<noteq> p)) \<and>
         (\<forall>i < length rs. wanted (pdf_url (rs ! i)) \<and> dest (pdf_url (rs ! i)) = p \<longrightarrow>
            local_pdf_path (out ! i) = p)"
  using assms
proof (induction rs arbitrary: fs lg out fs' lg')
  case Nil
  then show ?case by simp
next
  case (Cons r rs)
  obtain r1 fs1 lg1 where one: "download_row env r fs lg = (r1, fs1, lg1)"
    by (cases "download_row env r fs lg") auto
  obtain rs2 fs2 lg2 where rest: "download_rows env rs fs1 lg1 = (rs2, fs2, lg2)"
    by (cases "download_rows env rs fs1 lg1") auto
  from Cons.prems(1) one rest have out: "out = r1 # rs2" "fs' = fs2" "lg' = lg2" by simp_all
  from download_row_effect[OF one] Cons.prems(2)
  have keep: "fs1 p = Some c"
    and new1: "\<exists>new. lg1 = lg @ new \<and>
            (\<forall>e \<in> set new. e = HttpGet (pdf_url r) \<and> \<not> path_exists fs (dest (pdf_url r)))"
    by blast+
  from new1 obtain n1 where n1: "lg1 = lg @ n1"
    "\<forall>e \<in> set n1. e = HttpGet (pdf_url r) \<and> \<not> path_exists fs (dest (pdf_url r))" by blast
  have ex: "path_exists fs p" using Cons.prems(2) by (simp add: path_exists_def)
  from n1(2) ex have n1': "\<forall>e \<in> set n1. \<exists>u. e = HttpGet u \<and> dest u \<noteq> p" by auto
  from Cons.IH[OF rest keep]
  have ih: "fs2 p = Some c" "length rs2 = length rs"
    "\<exists>new. lg2 = lg1 @ new \<and> (\<forall>e \<in> set new. \<exists>u. e = HttpGet u \<and> dest u \<noteq> p)"
    "\<forall>i < length rs. wanted (pdf_url (rs ! i)) \<and> dest (pdf_url (rs ! i)) = p \<longrightarrow>
            local_pdf_path (rs2 ! i) = p"
    by blast+
  from ih(3) obtain n2 where n2: "lg2 = lg1 @ n2" "\<forall>e \<in> set n2. \<exists>u. e = HttpGet u \<and> dest u \<noteq> p"
    by blast
  have logs: "\<exists>new. lg' = lg @ new \<and> (\<forall>e \<in> set new. \<exists>u. e = HttpGet u \<and> dest u \<noteq> p)"
    using n1(1) n2 n1' out(3) by (intro exI[of _ "n1 @ n2"]) auto
  have first: "wanted (pdf_url r) \<and> dest (pdf_url r) = p \<longrightarrow> local_pdf_path r1 = p"
    using one ex by (auto simp: download_row_hit)
  have rows: "\<forall>i < length (r # rs).
      wanted (pdf_url ((r # rs) ! i)) \<and> dest (pdf_url ((r # rs) ! i)) = p \<longrightarrow>
      local_pdf_path (out ! i) = p"
  proof (intro allI impI)
    fix i assume "i < length (r # rs)"
      and "wanted (pdf_url ((r # rs) ! i)) \<and> dest (pdf_url ((r # rs) ! i)) = p"
    then show "local_pdf_path (out ! i) = p"
      using first ih(4) out(1) by (cases i) auto
  qed
  from ih(1,2) out logs rows show ?case by simp
qed


lemma basename_no_slash: "CHR ''/'' \<notin> set (basename p)"
proof -
  have "\<forall>c \<in> set (takeWhile (\<lambda>c. c \<noteq> CHR ''/'') (rev p)). c \<noteq> CHR ''/''"
    by (auto dest: set_takeWhileD)
  then show ?thesis by (auto simp: basename_def)
qed

lemma dest_eq: "dest u = ''pdfs/'' @ basename (split_query u)"
proof -
  have "basename (split_query u) \<noteq> [] \<longrightarrow> hd (basename (split_query u)) \<noteq> CHR ''/''"
    using basename_no_slash[of "split_query u"] by (cases "basename (split_query u)") auto
  then show ?thesis by (auto simp: dest_def path_join_def PDF_DIR_def)
qed

lemma dest_eq_iff:
  "dest u = dest v \<longleftrightarrow> basename (split_query u) = basename (split_query v)"
  by (simp add: dest_eq)

subsubsection \<open>Two calls for one URL\<close>

lemma auto_download_pdf_ok:
  "u \<noteq> [] \<Longrightarrow> \<not> path_exists fs (auto_dest memo_no listing_type) \<Longrightarrow>
   http env u = Response code body \<Longrightarrow> \<not> is_error_status code \<Longrightarrow>
   disk env (auto_dest memo_no listing_type) body = Written \<Longrightarrow>
   auto_download_pdf env u memo_no listing_type fs lg =
     (auto_dest memo_no listing_type, fs(auto_dest memo_no listing_type \<mapsto> Bytes body),
      lg @ [HttpGet u])"
  by (simp add: auto_download_pdf_def auto_dest_def Let_def)

lemma auto_download_pdf_hit:
  "u \<noteq> [] \<Longrightarrow> path_exists fs (auto_dest memo_no listing_type) \<Longrightarrow>
   auto_download_pdf env u memo_no listing_type fs lg = (auto_dest memo_no listing_type, fs, lg)"
  by (simp add: auto_download_pdf_def auto_dest_def Let_def)

lemma auto_download_pdf_fail:
  "u \<noteq> [] \<Longrightarrow> \<not> path_exists fs (auto_dest memo_no listing_type) \<Longrightarrow>
   http env u = ConnError \<or>
     (\<exists>code body. http env u = Response code body \<and> is_error_status code) \<Longrightarrow>
   auto_download_pdf env u memo_no listing_type fs lg = ([], fs, lg @ [HttpGet u])"
  by (auto simp: auto_download_pdf_def auto_dest_def Let_def)

lemma auto_download_pdf_open_fails:
  "u \<noteq> [] \<Longrightarrow> \<not> path_exists fs (auto_dest memo_no listing_type) \<Longrightarrow>
   http env u = Response code body \<Longrightarrow> \<not> is_error_status code \<Longrightarrow>
   disk env (auto_dest memo_no listing_type) body = OpenFails \<Longrightarrow>
   auto_download_pdf env u memo_no listing_type fs lg = ([], fs, lg @ [HttpGet u])"
  by (simp add: auto_download_pdf_def auto_dest_def Let_def)

text \<open>
  Claim C2, as amended. Let nothing be at the destination yet (neither a file nor, for a
  destination that names it, the directory \<open>pdfs\<close> itself), let the request for the URL
  succeed with status 200, and let the body be written to the destination without an
  error. Then two download steps for that URL make exactly one request between them: the
  first writes the body to the destination and records its path, the second finds the
  file, makes no request and records the same path. In rec\_scraper.py the destination is
  computed from the URL; in auto\_scraper.py it is computed from the memorandum number
  and the listing type, so there the two calls must agree on those. The listing type is
  a name without a slash (\<open>Active\<close> or \<open>Archive\<close> in a run), so that the destination
  is a name inside \<open>pdfs\<close>.
\<close>

theorem download_twice_fetches_once:
  assumes "pdf_url r1 = u" and "pdf_url r2 = u" and "wanted u"
    and "http env u = Response 200 body"
    and "\<not> path_exists fs (dest u)"
    and "disk env (dest u) body = Written"
    and "CHR ''/'' \<notin> set listing_type"
    and "\<not> path_exists fs (auto_dest memo_no listing_type)"
    and "disk env (auto_dest memo_no listing_type) body = Written"
  shows "download_rows env [r1, r2] fs lg =
           ([r1\<lparr>local_pdf_path := dest u\<rparr>, r2\<lparr>local_pdf_path := dest u\<rparr>],
            fs(dest u \<mapsto> Bytes body), lg @ [HttpGet u]) \<and>
         auto_download_pdf env u memo_no listing_type fs lg =
           (auto_dest memo_no listing_type, fs(auto_dest memo_no listing_type \<mapsto> Bytes body),
            lg @ [HttpGet u]) \<and>
         auto_download_pdf env u memo_no listing_type
             (fs(auto_dest memo_no listing_type \<mapsto> Bytes body)) (lg @ [HttpGet u]) =
           (auto_dest memo_no listing_type, fs(auto_dest memo_no listing_type \<mapsto> Bytes body),
            lg @ [HttpGet u])"
proof -
  have first: "download_row env r1 fs lg =
      (r1\<lparr>local_pdf_path := dest u\<rparr>, fs(dest u \<mapsto> Bytes body), lg @ [HttpGet u])"
    using download_row_ok[of r1 fs env body lg] assms by simp
  have "path_exists (fs(dest u \<mapsto> Bytes body)) (dest u)" by (simp add: path_exists_def)
  then have second: "download_row env r2 (fs(dest u \<mapsto> Bytes body)) (lg @ [HttpGet u]) =
      (r2\<lparr>local_pdf_path := dest u\<rparr>, fs(dest u \<mapsto> Bytes body), lg @ [HttpGet u])"
    using download_row_hit[of r2 "fs(dest u \<mapsto> Bytes body)" env "lg @ [HttpGet u]"] assms by simp
  have rec: "download_rows env [r1, r2] fs lg =
           ([r1\<lparr>local_pdf_path := dest u\<rparr>, r2\<lparr>local_pdf_path := dest u\<rparr>],
            fs(dest u \<mapsto> Bytes body), lg @ [HttpGet u])"
    by (simp add: first second)
  have ne: "u \<noteq> []" using assms(3) by (simp add: wanted_def)
  have ok: "\<not> is_error_status 200" by (simp add: is_error_status_def)
  have a1: "auto_download_pdf env u memo_no listing_type fs lg =
           (auto_dest memo_no listing_type, fs(auto_dest memo_no listing_type \<mapsto> Bytes body),
            lg @ [HttpGet u])"
    using auto_download_pdf_ok[OF ne assms(8) assms(4) ok assms(9)] .
  have "path_exists (fs(auto_dest memo_no listing_type \<mapsto> Bytes body)) (auto_dest memo_no listing_type)"
    by (simp add: path_exists_def)
  from auto_download_pdf_hit[OF ne this]
  have a2: "auto_download_pdf env u memo_no listing_type
             (fs(auto_dest memo_no listing_type \<mapsto> Bytes body)) (lg @ [HttpGet u]) =
           (auto_dest memo_no listing_type, fs(auto_dest memo_no listing_type \<mapsto> Bytes body),
            lg @ [HttpGet u])" .
  from rec a1 a2 show ?thesis by blast
qed

lemma lower_rules_2023:
  "lower ''https://doe.gov.in/2023/rules.pdf'' = ''https://doe.gov.in/2023/rules.pdf''"
  by (simp add: lower_def lower_char_def)

lemma wanted_rules_2023: "wanted ''https://doe.gov.in/2023/rules.pdf''"
  by (simp add: wanted_def lower_rules_2023 endswith_def)

lemma dest_rules_2023: "dest ''https://doe.gov.in/2023/rules.pdf'' = ''pdfs/rules.pdf''"
  by (simp add: dest_eq basename_def split_query_def)

lemma disk_pdf_env: "disk pdf_env p d = Written"
  by (simp add: pdf_env_def dead_env_def)

lemma slugify_memo: "slugify ''F.No. 1/2023'' = ''F_No_1_2023''"
  by (simp add: slugify_def strip_chars_def is_space_def is_word_def is_ascii_word_def Let_def)

theorem download_twice_fetches_once_witness:
  "wanted ''https://doe.gov.in/2023/rules.pdf'' \<and>
   http pdf_env ''https://doe.gov.in/2023/rules.pdf'' = Response 200 ''%PDF rules 2023'' \<and>
   \<not> path_exists Map.empty (dest ''https://doe.gov.in/2023/rules.pdf'') \<and>
   disk pdf_env (dest ''https://doe.gov.in/2023/rules.pdf'') ''%PDF rules 2023'' = Written \<and>
   CHR ''/'' \<notin> set ''Active'' \<and>
   \<not> path_exists Map.empty (auto_dest ''F.No. 1/2023'' ''Active'') \<and>
   disk pdf_env (auto_dest ''F.No. 1/2023'' ''Active'') ''%PDF rules 2023'' = Written \<and>
   download_rows pdf_env
       [pdf_row ''https://doe.gov.in/2023/rules.pdf'', pdf_row ''https://doe.gov.in/2023/rules.pdf'']
       Map.empty [] =
     ([(pdf_row ''https://doe.gov.in/2023/rules.pdf'')\<lparr>local_pdf_path := ''pdfs/rules.pdf''\<rparr>,
       (pdf_row ''https://doe.gov.in/2023/rules.pdf'')\<lparr>local_pdf_path := ''pdfs/rules.pdf''\<rparr>],
      [''pdfs/rules.pdf'' \<mapsto> Bytes ''%PDF rules 2023''],
      [HttpGet ''https://doe.gov.in/2023/rules.pdf'']) \<and>
   auto_download_pdf pdf_env ''https://doe.gov.in/2023/rules.pdf'' ''F.No. 1/2023'' ''Active''
       Map.empty [] =
     (''pdfs/autonomous_bodies_Active_F_No_1_2023.pdf'',
      [''pdfs/autonomous_bodies_Active_F_No_1_2023.pdf'' \<mapsto> Bytes ''%PDF rules 2023''],
      [HttpGet ''https://doe.gov.in/2023/rules.pdf'']) \<and>
   auto_download_pdf pdf_env ''https://doe.gov.in/2023/rules.pdf'' ''F.No. 1/2023'' ''Active''
       [''pdfs/autonomous_bodies_Active_F_No_1_2023.pdf'' \<mapsto> Bytes ''%PDF rules 2023'']
       [HttpGet ''https://doe.gov.in/2023/rules.pdf''] =
     (''pdfs/autonomous_bodies_Active_F_No_1_2023.pdf'',
      [''pdfs/autonomous_bodies_Active_F_No_1_2023.pdf'' \<mapsto> Bytes ''%PDF rules 2023''],
      [HttpGet ''https://doe.gov.in/2023/rules.pdf''])"
proof -
  have h1: "pdf_url (pdf_row ''https://doe.gov.in/2023/rules.pdf'') = ''https://doe.gov.in/2023/rules.pdf''"
    by (simp add: pdf_row_def)
  have h4: "http pdf_env ''https://doe.gov.in/2023/rules.pdf'' = Response 200 ''%PDF rules 2023''"
    by (simp add: pdf_env_def dead_env_def)
  have h5: "\<not> path_exists Map.empty (dest ''https://doe.gov.in/2023/rules.pdf'')"
    by (simp add: path_exists_def dest_rules_2023 PDF_DIR_def)
  have h6: "disk pdf_env (dest ''https://doe.gov.in/2023/rules.pdf'') ''%PDF rules 2023'' = Written"
    by (rule disk_pdf_env)
  have ad: "auto_dest ''F.No. 1/2023'' ''Active'' = ''pdfs/autonomous_bodies_Active_F_No_1_2023.pdf''"
    by (simp add: auto_dest_def slugify_memo path_join_def PDF_DIR_def)
  have h7: "\<not> path_exists Map.empty (auto_dest ''F.No. 1/2023'' ''Active'')"
    by (simp add: ad path_exists_def PDF_DIR_def)
  have h8: "disk pdf_env (auto_dest ''F.No. 1/2023'' ''Active'') ''%PDF rules 2023'' = Written"
    by (rule disk_pdf_env)
  have h9: "CHR ''/'' \<notin> set ''Active''" by simp
  from download_twice_fetches_once [OF h1 h1 wanted_rules_2023 h4 h5 h6 h9 h7 h8, of "[]"]
    wanted_rules_2023 h4 h5 h6 h7 h8 h9
  show ?thesis by (simp add: dest_rules_2023 ad)
qed

text \<open>
  Claim C2 as stated fails in two ways. When the request fails, nothing is written and
  the second call for the same URL asks the network again. And in auto\_scraper.py the
  same URL under two memorandum numbers has two destinations and is fetched twice.
\<close>

theorem download_twice_counterexample:
  "download_rows pdf_env
       [pdf_row ''https://doe.gov.in/gone.pdf'', pdf_row ''https://doe.gov.in/gone.pdf'']
       Map.empty [] =
     ([pdf_row ''https://doe.gov.in/gone.pdf'', pdf_row ''https://doe.gov.in/gone.pdf''],
      Map.empty,
      [HttpGet ''https://doe.gov.in/gone.pdf'', HttpGet ''https://doe.gov.in/gone.pdf'']) \<and>
   (case auto_download_pdf pdf_env ''https://doe.gov.in/2023/rules.pdf'' ''M1'' ''Active'' Map.empty [] of
      (p1, fs1, lg1) \<Rightarrow>
        (case auto_download_pdf pdf_env ''https://doe.gov.in/2023/rules.pdf'' ''M2'' ''Active'' fs1 lg1 of
           (p2, fs2, lg2) \<Rightarrow>
             p1 = ''pdfs/autonomous_bodies_Active_M1.pdf'' \<and>
             p2 = ''pdfs/autonomous_bodies_Active_M2.pdf'' \<and>
             lg2 = [HttpGet ''https://doe.gov.in/2023/rules.pdf'',
                    HttpGet ''https://doe.gov.in/2023/rules.pdf'']))"
proof -
  have w: "wanted ''https://doe.gov.in/gone.pdf''"
    by (simp add: wanted_def lower_def lower_char_def endswith_def)
  have d: "dest ''https://doe.gov.in/gone.pdf'' = ''pdfs/gone.pdf''"
    by (simp add: dest_eq basename_def split_query_def)
  have h: "http pdf_env ''https://doe.gov.in/gone.pdf'' = Response 404 ''Not Found''"
    by (simp add: pdf_env_def dead_env_def)
  have one: "download_row pdf_env (pdf_row ''https://doe.gov.in/gone.pdf'') Map.empty lg =
      (pdf_row ''https://doe.gov.in/gone.pdf'', Map.empty, lg @ [HttpGet ''https://doe.gov.in/gone.pdf''])"
    for lg
    using download_row_fail[of "pdf_row ''https://doe.gov.in/gone.pdf''" Map.empty pdf_env lg] w d h
    by (simp add: pdf_row_def path_exists_def PDF_DIR_def)
  have m1: "slugify ''M1'' = ''M1''" and m2: "slugify ''M2'' = ''M2''"
    by (simp_all add: slugify_def strip_chars_def is_space_def is_word_def is_ascii_word_def Let_def)
  have h2: "http pdf_env ''https://doe.gov.in/2023/rules.pdf'' = Response 200 ''%PDF rules 2023''"
    by (simp add: pdf_env_def dead_env_def)
  have a: "auto_download_pdf pdf_env ''https://doe.gov.in/2023/rules.pdf'' ''M1'' ''Active'' Map.empty [] =
      (''pdfs/autonomous_bodies_Active_M1.pdf'',
       [''pdfs/autonomous_bodies_Active_M1.pdf'' \<mapsto> Bytes ''%PDF rules 2023''],
       [HttpGet ''https://doe.gov.in/2023/rules.pdf''])"
    by (simp add: auto_download_pdf_def m1 h2 disk_pdf_env path_join_def PDF_DIR_def path_exists_def
        is_error_status_def Let_def)
  have b: "auto_download_pdf pdf_env ''https://doe.gov.in/2023/rules.pdf'' ''M2'' ''Active''
       [''pdfs/autonomous_bodies_Active_M1.pdf'' \<mapsto> Bytes ''%PDF rules 2023'']
       [HttpGet ''https://doe.gov.in/2023/rules.pdf''] =
      (''pdfs/autonomous_bodies_Active_M2.pdf'',
       [''pdfs/autonomous_bodies_Active_M1.pdf'' \<mapsto> Bytes ''%PDF rules 2023'',
        ''pdfs/autonomous_bodies_Active_M2.pdf'' \<mapsto> Bytes ''%PDF rules 2023''],
       [HttpGet ''https://doe.gov.in/2023/rules.pdf'', HttpGet ''https://doe.gov.in/2023/rules.pdf''])"
    by (simp add: auto_download_pdf_def m2 h2 disk_pdf_env path_join_def PDF_DIR_def path_exists_def
        is_error_status_def Let_def)
  show ?thesis by (simp add: one a b)
qed

text \<open>
  The condition on the disk is needed as well. When the file cannot be created (its name
  is longer than the file system allows, say), the body that arrived is dropped, no row
  is given a path and the second step asks the network again; and a destination that
  names the directory \<open>pdfs\<close> itself counts as present, so that the row is given the
  path of a directory without any request.
\<close>

lemma download_twice_unwritable:
  "download_rows full_disk_env
       [pdf_row ''https://doe.gov.in/2023/rules.pdf'', pdf_row ''https://doe.gov.in/2023/rules.pdf'']
       Map.empty [] =
     ([pdf_row ''https://doe.gov.in/2023/rules.pdf'', pdf_row ''https://doe.gov.in/2023/rules.pdf''],
      Map.empty,
      [HttpGet ''https://doe.gov.in/2023/rules.pdf'', HttpGet ''https://doe.gov.in/2023/rules.pdf''])"
proof -
  have h: "http full_disk_env ''https://doe.gov.in/2023/rules.pdf'' = Response 200 ''%PDF rules 2023''"
    by (simp add: full_disk_env_def pdf_env_def dead_env_def)
  have k: "disk full_disk_env (dest ''https://doe.gov.in/2023/rules.pdf'') ''%PDF rules 2023'' = OpenFails"
    by (simp add: full_disk_env_def)
  have one: "download_row full_disk_env (pdf_row ''https://doe.gov.in/2023/rules.pdf'') Map.empty lg =
      (pdf_row ''https://doe.gov.in/2023/rules.pdf'', Map.empty,
       lg @ [HttpGet ''https://doe.gov.in/2023/rules.pdf''])" for lg
    using download_row_open_fails[of "pdf_row ''https://doe.gov.in/2023/rules.pdf''" Map.empty
        full_disk_env "''%PDF rules 2023''" lg] wanted_rules_2023 h k
    by (simp add: pdf_row_def path_exists_def dest_rules_2023 PDF_DIR_def)
  show ?thesis by (simp add: one)
qed

lemma download_row_directory:
  "download_rows pdf_env [pdf_row ''https://doe.gov.in/files/..?name=a.pdf''] Map.empty [] =
     ([(pdf_row ''https://doe.gov.in/files/..?name=a.pdf'')\<lparr>local_pdf_path := ''pdfs/..''\<rparr>],
      Map.empty, [])"
proof -
  have w: "wanted ''https://doe.gov.in/files/..?name=a.pdf''"
    by (simp add: wanted_def lower_def lower_char_def endswith_def)
  have d: "dest ''https://doe.gov.in/files/..?name=a.pdf'' = ''pdfs/..''"
    by (simp add: dest_eq basename_def split_query_def)
  have "download_row pdf_env (pdf_row ''https://doe.gov.in/files/..?name=a.pdf'') Map.empty [] =
      ((pdf_row ''https://doe.gov.in/files/..?name=a.pdf'')\<lparr>local_pdf_path := ''pdfs/..''\<rparr>,
       Map.empty, [])"
    using download_row_hit[of "pdf_row ''https://doe.gov.in/files/..?name=a.pdf''" Map.empty pdf_env "[]"]
      w d
    by (simp add: pdf_row_def path_exists_def PDF_DIR_def)
  then show ?thesis by simp
qed


subsection \<open>Asset download: one file name for several URLs\<close>

text \<open>
  Claim C10, as amended. The destination of a download is the directory \<open>pdfs\<close> and the
  part of the URL after its last slash, the URL being cut at its first question mark.
  Let the first row's URL pass the guard (it ends in \<open>.pdf\<close>, query string included),
  let nothing be at its destination (neither a file nor, for a base name that is empty, a
  dot or a double dot, the directory \<open>pdfs\<close> itself), let its request succeed with status
  200, and let the body be written to the destination without an error. Then after the
  pass over all rows the file holds the body of that first URL, whatever the servers and
  the disk answer for the later rows; no later request is made for a URL with the same
  base name; and every later row whose URL passes the guard and has the same base name,
  whatever its directory or query string, is given that same path. The loop body of
  manuals\_scraper.py is the same function (\<open>manuals_download_row_eq\<close>).
\<close>

theorem same_basename_first_fetch_only:
  assumes "wanted (pdf_url r1)"
    and "\<not> path_exists fs (dest (pdf_url r1))"
    and "http env (pdf_url r1) = Response 200 body"
    and "disk env (dest (pdf_url r1)) body = Written"
    and "download_rows env (r1 # rs) fs lg = (out, fs', lg')"
  shows "dest (pdf_url r1) = ''pdfs/'' @ basename (split_query (pdf_url r1)) \<and>
         fs' (dest (pdf_url r1)) = Some (Bytes body) \<and>
         length out = Suc (length rs) \<and>
         local_pdf_path (out ! 0) = dest (pdf_url r1) \<and>
         (\<exists>new. lg' = lg @ HttpGet (pdf_url r1) # new \<and>
            (\<forall>e \<in> set new. \<exists>u. e = HttpGet u \<and>
               basename (split_query u) \<noteq> basename (split_query (pdf_url r1)))) \<and>
         (\<forall>i < length rs.
            wanted (pdf_url (rs ! i)) \<and>
            basename (split_query (pdf_url (rs ! i))) = basename (split_query (pdf_url r1)) \<longrightarrow>
            local_pdf_path (out ! Suc i) = dest (pdf_url r1))"
proof -
  let ?p = "dest (pdf_url r1)"
  let ?fs1 = "fs(?p \<mapsto> Bytes body)"
  let ?lg1 = "lg @ [HttpGet (pdf_url r1)]"
  have one: "download_row env r1 fs lg = (r1\<lparr>local_pdf_path := ?p\<rparr>, ?fs1, ?lg1)"
    by (rule download_row_ok[OF assms(1,2,3,4)])
  obtain rs2 fs2 lg2 where rest: "download_rows env rs ?fs1 ?lg1 = (rs2, fs2, lg2)"
    by (cases "download_rows env rs ?fs1 ?lg1") auto
  from assms(5) one rest
  have out: "out = r1\<lparr>local_pdf_path := ?p\<rparr> # rs2" "fs' = fs2" "lg' = lg2" by simp_all
  have "?fs1 ?p = Some (Bytes body)" by simp
  from download_rows_with_file[OF rest this]
  have keep: "fs2 ?p = Some (Bytes body)" and len: "length rs2 = length rs"
    and new: "\<exists>new. lg2 = ?lg1 @ new \<and> (\<forall>e \<in> set new. \<exists>u. e = HttpGet u \<and> dest u \<noteq> ?p)"
    and later: "\<forall>i < length rs. wanted (pdf_url (rs ! i)) \<and> dest (pdf_url (rs ! i)) = ?p \<longrightarrow>
            local_pdf_path (rs2 ! i) = ?p"
    by blast+
  from new obtain n where n: "lg2 = ?lg1 @ n" "\<forall>e \<in> set n. \<exists>u. e = HttpGet u \<and> dest u \<noteq> ?p"
    by blast
  have logs: "\<exists>new. lg' = lg @ HttpGet (pdf_url r1) # new \<and>
            (\<forall>e \<in> set new. \<exists>u. e = HttpGet u \<and>
               basename (split_query u) \<noteq> basename (split_query (pdf_url r1)))"
    using n out(3) by (intro exI[of _ n]) (simp add: dest_eq_iff)
  have rows: "\<forall>i < length rs.
            wanted (pdf_url (rs ! i)) \<and>
            basename (split_query (pdf_url (rs ! i))) = basename (split_query (pdf_url r1)) \<longrightarrow>
            local_pdf_path (out ! Suc i) = ?p"
    using later out(1) by (simp add: dest_eq_iff)
  from keep len logs rows out show ?thesis by (simp add: dest_eq)
qed

text \<open>The same document under two directories: the second row is given the first file.\<close>

lemma rules_2024_facts:
  "wanted ''https://doe.gov.in/2024/rules.pdf''"
  "basename (split_query ''https://doe.gov.in/2024/rules.pdf'') = ''rules.pdf''"
  "basename (split_query ''https://doe.gov.in/2023/rules.pdf'') = ''rules.pdf''"
  by (simp_all add: wanted_def lower_def lower_char_def endswith_def basename_def split_query_def)

theorem same_basename_first_fetch_only_witness:
  "wanted ''https://doe.gov.in/2023/rules.pdf'' \<and>
   \<not> path_exists Map.empty (dest ''https://doe.gov.in/2023/rules.pdf'') \<and>
   http pdf_env ''https://doe.gov.in/2023/rules.pdf'' = Response 200 ''%PDF rules 2023'' \<and>
   disk pdf_env (dest ''https://doe.gov.in/2023/rules.pdf'') ''%PDF rules 2023'' = Written \<and>
   (case download_rows pdf_env
           [pdf_row ''https://doe.gov.in/2023/rules.pdf'', pdf_row ''https://doe.gov.in/2024/rules.pdf'']
           Map.empty [] of
      (out, fs', lg') \<Rightarrow>
        fs' ''pdfs/rules.pdf'' = Some (Bytes ''%PDF rules 2023'') \<and>
        local_pdf_path (out ! 0) = ''pdfs/rules.pdf'' \<and>
        local_pdf_path (out ! 1) = ''pdfs/rules.pdf'' \<and>
        (\<exists>new. lg' = HttpGet ''https://doe.gov.in/2023/rules.pdf'' # new \<and>
           (\<forall>e \<in> set new. \<exists>u. e = HttpGet u \<and> basename (split_query u) \<noteq> ''rules.pdf'')))"
proof -
  let ?rs = "[pdf_row ''https://doe.gov.in/2024/rules.pdf'']"
  obtain out fs' lg' where run:
    "download_rows pdf_env (pdf_row ''https://doe.gov.in/2023/rules.pdf'' # ?rs) Map.empty []
       = (out, fs', lg')"
    by (cases "download_rows pdf_env (pdf_row ''https://doe.gov.in/2023/rules.pdf'' # ?rs) Map.empty []")
       auto
  have u: "pdf_url (pdf_row ''https://doe.gov.in/2023/rules.pdf'') = ''https://doe.gov.in/2023/rules.pdf''"
    "pdf_url (pdf_row ''https://doe.gov.in/2024/rules.pdf'') = ''https://doe.gov.in/2024/rules.pdf''"
    by (simp_all add: pdf_row_def)
  have h1: "wanted (pdf_url (pdf_row ''https://doe.gov.in/2023/rules.pdf''))"
    by (simp add: u wanted_rules_2023)
  have h2: "\<not> path_exists Map.empty (dest (pdf_url (pdf_row ''https://doe.gov.in/2023/rules.pdf'')))"
    by (simp add: u path_exists_def dest_rules_2023 PDF_DIR_def)
  have h3: "http pdf_env (pdf_url (pdf_row ''https://doe.gov.in/2023/rules.pdf''))
              = Response 200 ''%PDF rules 2023''"
    by (simp add: u pdf_env_def dead_env_def)
  have h4: "disk pdf_env (dest (pdf_url (pdf_row ''https://doe.gov.in/2023/rules.pdf'')))
              ''%PDF rules 2023'' = Written"
    by (rule disk_pdf_env)
  from same_basename_first_fetch_only [OF h1 h2 h3 h4 run] h1 h2 h3 h4 run
  show ?thesis by (simp add: u dest_rules_2023 rules_2024_facts)
qed

text \<open>
  The guard tests the suffix of the whole URL, before the query string is cut off: a URL
  that ends in \<open>?v=2\<close> would be passed over and its row given no path, although
  it has the same base name. (The selector of \<open>extract_table\<close> yields only links
  that end in \<open>.pdf\<close>.)
\<close>

lemma query_string_passed_over:
  "basename (split_query ''https://doe.gov.in/2024/rules.pdf?v=2'')
     = basename (split_query ''https://doe.gov.in/2024/rules.pdf'') \<and>
   download_rows pdf_env
       [pdf_row ''https://doe.gov.in/2024/rules.pdf'', pdf_row ''https://doe.gov.in/2024/rules.pdf?v=2'']
       Map.empty [] =
     ([(pdf_row ''https://doe.gov.in/2024/rules.pdf'')\<lparr>local_pdf_path := ''pdfs/rules.pdf''\<rparr>,
       pdf_row ''https://doe.gov.in/2024/rules.pdf?v=2''],
      [''pdfs/rules.pdf'' \<mapsto> Bytes ''%PDF rules 2024''],
      [HttpGet ''https://doe.gov.in/2024/rules.pdf''])"
proof -
  have nw: "\<not> wanted ''https://doe.gov.in/2024/rules.pdf?v=2''"
    by (simp add: wanted_def lower_def lower_char_def endswith_def)
  have d: "dest ''https://doe.gov.in/2024/rules.pdf'' = ''pdfs/rules.pdf''"
    by (simp add: dest_eq rules_2024_facts)
  have h: "http pdf_env ''https://doe.gov.in/2024/rules.pdf'' = Response 200 ''%PDF rules 2024''"
    by (simp add: pdf_env_def dead_env_def)
  have one: "download_row pdf_env (pdf_row ''https://doe.gov.in/2024/rules.pdf'') Map.empty [] =
      ((pdf_row ''https://doe.gov.in/2024/rules.pdf'')\<lparr>local_pdf_path := ''pdfs/rules.pdf''\<rparr>,
       [''pdfs/rules.pdf'' \<mapsto> Bytes ''%PDF rules 2024''],
       [HttpGet ''https://doe.gov.in/2024/rules.pdf''])"
    using download_row_ok[of "pdf_row ''https://doe.gov.in/2024/rules.pdf''" Map.empty pdf_env
        "''%PDF rules 2024''" "[]"] rules_2024_facts(1) d h
    by (simp add: pdf_row_def path_exists_def PDF_DIR_def disk_pdf_env)
  have two: "download_row pdf_env (pdf_row ''https://doe.gov.in/2024/rules.pdf?v=2'') fs lg =
      (pdf_row ''https://doe.gov.in/2024/rules.pdf?v=2'', fs, lg)" for fs lg
    using download_row_skip[of "pdf_row ''https://doe.gov.in/2024/rules.pdf?v=2''"] nw
    by (simp add: pdf_row_def)
  have "basename (split_query ''https://doe.gov.in/2024/rules.pdf?v=2'') = ''rules.pdf''"
    by (simp add: basename_def split_query_def)
  then show ?thesis by (simp add: one two rules_2024_facts)
qed

text \<open>
  Claim C10 as stated fails when the request for the first URL fails: nothing is at the
  destination then, so the later URL with the same base name is fetched as well, the
  file holds the body of that later URL, and the first row is left without a path.
\<close>

theorem first_fetch_fails_counterexample:
  "basename (split_query ''https://doe.gov.in/2023/notice.pdf'')
     = basename (split_query ''https://doe.gov.in/2024/notice.pdf'') \<and>
   download_rows pdf_env
       [pdf_row ''https://doe.gov.in/2023/notice.pdf'', pdf_row ''https://doe.gov.in/2024/notice.pdf'']
       Map.empty [] =
     ([pdf_row ''https://doe.gov.in/2023/notice.pdf'',
       (pdf_row ''https://doe.gov.in/2024/notice.pdf'')\<lparr>local_pdf_path := ''pdfs/notice.pdf''\<rparr>],
      [''pdfs/notice.pdf'' \<mapsto> Bytes ''%PDF notice 2024''],
      [HttpGet ''https://doe.gov.in/2023/notice.pdf'', HttpGet ''https://doe.gov.in/2024/notice.pdf''])"
proof -
  let ?u1 = "''https://doe.gov.in/2023/notice.pdf''"
  let ?u2 = "''https://doe.gov.in/2024/notice.pdf''"
  have w: "wanted ?u1" "wanted ?u2"
    by (simp_all add: wanted_def lower_def lower_char_def endswith_def)
  have b: "basename (split_query ?u1) = ''notice.pdf''" "basename (split_query ?u2) = ''notice.pdf''"
    by (simp_all add: basename_def split_query_def)
  have d: "dest ?u1 = ''pdfs/notice.pdf''" "dest ?u2 = ''pdfs/notice.pdf''"
    by (simp_all add: dest_eq b)
  have h1: "http pdf_env ?u1 = Response 404 ''Not Found''"
    and h2: "http pdf_env ?u2 = Response 200 ''%PDF notice 2024''"
    by (simp_all add: pdf_env_def dead_env_def)
  have one: "download_row pdf_env (pdf_row ?u1) Map.empty [] =
      (pdf_row ?u1, Map.empty, [HttpGet ?u1])"
    using download_row_fail[of "pdf_row ?u1" Map.empty pdf_env "[]"] w d h1
    by (simp add: pdf_row_def path_exists_def PDF_DIR_def)
  have two: "download_row pdf_env (pdf_row ?u2) Map.empty [HttpGet ?u1] =
      ((pdf_row ?u2)\<lparr>local_pdf_path := ''pdfs/notice.pdf''\<rparr>,
       [''pdfs/notice.pdf'' \<mapsto> Bytes ''%PDF notice 2024''], [HttpGet ?u1, HttpGet ?u2])"
    using download_row_ok[of "pdf_row ?u2" Map.empty pdf_env "''%PDF notice 2024''" "[HttpGet ?u1]"]
      w d h2
    by (simp add: pdf_row_def path_exists_def PDF_DIR_def disk_pdf_env)
  show ?thesis by (simp add: one two b)
qed

text \<open>
  The same happens when the first body arrives and its file cannot be created: the later
  URL with the same base name is fetched too.
\<close>

lemma first_write_fails_both_fetched:
  "download_rows full_disk_env
       [pdf_row ''https://doe.gov.in/2023/rules.pdf'', pdf_row ''https://doe.gov.in/2024/rules.pdf'']
       Map.empty [] =
     ([pdf_row ''https://doe.gov.in/2023/rules.pdf'', pdf_row ''https://doe.gov.in/2024/rules.pdf''],
      Map.empty,
      [HttpGet ''https://doe.gov.in/2023/rules.pdf'', HttpGet ''https://doe.gov.in/2024/rules.pdf''])"
proof -
  let ?u1 = "''https://doe.gov.in/2023/rules.pdf''"
  let ?u2 = "''https://doe.gov.in/2024/rules.pdf''"
  have d2: "dest ?u2 = ''pdfs/rules.pdf''" by (simp add: dest_eq rules_2024_facts)
  have h1: "http full_disk_env ?u1 = Response 200 ''%PDF rules 2023''"
    and h2: "http full_disk_env ?u2 = Response 200 ''%PDF rules 2024''"
    by (simp_all add: full_disk_env_def pdf_env_def dead_env_def)
  have k: "disk full_disk_env p d = OpenFails" for p d by (simp add: full_disk_env_def)
  have one: "download_row full_disk_env (pdf_row ?u1) Map.empty [] =
      (pdf_row ?u1, Map.empty, [HttpGet ?u1])"
    using download_row_open_fails[of "pdf_row ?u1" Map.empty full_disk_env "''%PDF rules 2023''" "[]"]
      wanted_rules_2023 h1 k
    by (simp add: pdf_row_def path_exists_def dest_rules_2023 PDF_DIR_def)
  have two: "download_row full_disk_env (pdf_row ?u2) Map.empty [HttpGet ?u1] =
      (pdf_row ?u2, Map.empty, [HttpGet ?u1, HttpGet ?u2])"
    using download_row_open_fails[of "pdf_row ?u2" Map.empty full_disk_env "''%PDF rules 2024''"
        "[HttpGet ?u1]"] rules_2024_facts(1) h2 k
    by (simp add: pdf_row_def path_exists_def d2 PDF_DIR_def)
  show ?thesis by (simp add: one two)
qed


subsection \<open>Asset download: a request that fails\<close>

text \<open>
  A request of \<open>download_pdfs\<close> that fails, by an exception or by a status other than
  200, leaves the row and the files as they were (\<open>download_row_fail\<close>), and so does a
  request of \<open>download_pdf\<close> in auto\_scraper.py (\<open>auto_download_pdf_fail\<close>). The
  streamed download of proc\_scraper.py does the same as long as the failure comes before
  the body.
\<close>

lemma proc_download_pdf_fail_early:
  assumes "proc_download_pdf env u pfx fs lg = (p, fs', lg')"
    and "http_stream env u = StreamConnError \<or>
         (\<exists>code chunks breaks. http_stream env u = Stream code chunks breaks \<and> is_error_status code)"
  shows "fs' = fs \<and> (p = [] \<and> lg' = lg @ [HttpGet u] \<or> p \<noteq> [] \<and> lg' = lg \<and> path_exists fs p)"
  using assms
  by (auto simp: proc_download_pdf_def Let_def path_join_def PDF_DIR_def split: if_splits)

text \<open>
  Claim C6 holds of the code except here: when the connection breaks after the status
  line and the first chunk, \<open>download_pdf\<close> of proc\_scraper.py returns the empty
  string, as the claim says, but leaves the chunk it had written at the destination.
  The next call for the same row then finds a file there and returns the path of the
  truncated document without asking the network.
\<close>

theorem proc_download_leaves_partial_file:
  "proc_download_pdf pdf_env ''https://doe.gov.in/files/om.pdf'' ''Current_sr1'' Map.empty [] =
     ([], [''pdfs/Current_sr1_om.pdf'' \<mapsto> Bytes ''%PDF om part 1''],
      [HttpGet ''https://doe.gov.in/files/om.pdf'']) \<and>
   proc_download_pdf pdf_env ''https://doe.gov.in/files/om.pdf'' ''Current_sr1''
       [''pdfs/Current_sr1_om.pdf'' \<mapsto> Bytes ''%PDF om part 1'']
       [HttpGet ''https://doe.gov.in/files/om.pdf''] =
     (''pdfs/Current_sr1_om.pdf'', [''pdfs/Current_sr1_om.pdf'' \<mapsto> Bytes ''%PDF om part 1''],
      [HttpGet ''https://doe.gov.in/files/om.pdf''])"
proof -
  have b: "basename (urlparse_path pdf_env ''https://doe.gov.in/files/om.pdf'') = ''om.pdf''"
    by (simp add: pdf_env_def dead_env_def BASE_URL_def split_query_def basename_def)
  have l: "endswith (lower ''om.pdf'') ''.pdf''"
    by (simp add: lower_def lower_char_def endswith_def)
  have p: "sub_runs (\<lambda>c. \<not> is_ascii_word c \<and> c \<noteq> CHR ''-'') False
             (strip_chars is_space ''Current_sr1'')
           = ''Current_sr1''"
    by (simp add: strip_chars_def is_space_def is_ascii_word_def)
  have h: "http_stream pdf_env ''https://doe.gov.in/files/om.pdf'' = Stream 200 [''%PDF om part 1''] True"
    by (simp add: pdf_env_def dead_env_def)
  show ?thesis
    by (simp add: proc_download_pdf_def b l p h disk_pdf_env Let_def path_join_def PDF_DIR_def
        path_exists_def is_error_status_def)
qed


subsection \<open>Pagination: the visited set ends the loop\<close>

subsubsection \<open>What extraction and page loading leave alone\<close>

lemma log_extract_row [simp]: "log (extract_row env hs sec u tr s) = log s"
  by (simp add: extract_row_def Let_def)

lemma driver_extract_row [simp]: "driver (extract_row env hs sec u tr s) = driver s"
  by (simp add: extract_row_def Let_def)

lemma log_extract_table [simp]: "log (extract_table env soup sec u s) = log s"
proof -
  have "log (fold (extract_row env hs sec u) trs s) = log s" for hs trs
    by (induction trs arbitrary: s) simp_all
  then show ?thesis by (simp add: extract_table_def split: option.splits)
qed

lemma driver_extract_table [simp]: "driver (extract_table env soup sec u s) = driver s"
proof -
  have "driver (fold (extract_row env hs sec u) trs s) = driver s" for hs trs
    by (induction trs arbitrary: s) simp_all
  then show ?thesis by (simp add: extract_table_def split: option.splits)
qed

lemma safe_get_returns:
  assumes "safe_get env u s = Inr s'"
  shows "\<exists>cu p. (site env u = Loaded cu p \<or> site env u = TimedOut cu p True) \<and>
           s' = s\<lparr>log := log s @ [Nav u], driver := \<lparr>current_url = cu, page_source = p\<rparr>\<rparr>"
  using assms by (cases "site env u") (auto simp: safe_get_def Let_def split: if_splits)

lemma safe_get_raises:
  assumes "safe_get env u s = Inl (e, s')"
  shows "log s' = log s @ [Nav u] \<and> rows s' = rows s \<and> files s' = files s"
  using assms by (cases "site env u") (auto simp: safe_get_def Let_def split: if_splits)

subsubsection \<open>The loop with a visited set\<close>

text \<open>One round of the loop either ends it or loads the next page and goes on with the
  current address added to the visited set.\<close>

lemma handle_pagination_round:
  "(\<exists>s'. handle_pagination_loop env sec visited s = Some s') \<or>
   (\<exists>h s2. current_url (driver s) \<notin> visited \<and>
      safe_get env h (extract_table env (page_source (driver s)) sec (current_url (driver s)) s)
        = Inr s2 \<and>
      handle_pagination_loop env sec visited s =
        handle_pagination_loop env sec (insert (current_url (driver s)) visited) s2)"
  by (subst (1 2) handle_pagination_loop.simps)
     (auto simp: Let_def split: option.splits sum.splits)

text \<open>
  On a site whose navigations can end at finitely many addresses only, the loop ends:
  every round that goes on adds one of these addresses to the visited set.
\<close>

lemma handle_pagination_terminates:
  assumes fin: "finite (landing env)"
  shows "\<exists>s'. handle_pagination_loop env sec visited s = Some s'"
proof -
  define U where "U = landing env"
  have fin: "finite U" using fin by (simp add: U_def)
  have land: "safe_get env u t = Inr t' \<Longrightarrow> current_url (driver t') \<in> U" for u t t'
    by (drule safe_get_returns) (fastforce simp: U_def landing_def)
  have inside: "current_url (driver s) \<in> U \<Longrightarrow> \<exists>s'. handle_pagination_loop env sec visited s = Some s'"
    for visited s
  proof (induction "card (U - visited)" arbitrary: visited s rule: less_induct)
    case less
    from handle_pagination_round[of env sec visited s] show ?case
    proof
      assume "\<exists>s'. handle_pagination_loop env sec visited s = Some s'"
      then show ?thesis .
    next
      assume "\<exists>h s2. current_url (driver s) \<notin> visited \<and>
        safe_get env h (extract_table env (page_source (driver s)) sec (current_url (driver s)) s)
          = Inr s2 \<and>
        handle_pagination_loop env sec visited s =
          handle_pagination_loop env sec (insert (current_url (driver s)) visited) s2"
      then obtain h s2 where new: "current_url (driver s) \<notin> visited"
        and get: "safe_get env h
            (extract_table env (page_source (driver s)) sec (current_url (driver s)) s) = Inr s2"
        and go: "handle_pagination_loop env sec visited s =
            handle_pagination_loop env sec (insert (current_url (driver s)) visited) s2"
        by blast
      from land[OF get] have "current_url (driver s2) \<in> U" .
      moreover have "card (U - insert (current_url (driver s)) visited) < card (U - visited)"
        using fin less.prems new
        by (intro psubset_card_mono) auto
      ultimately have "\<exists>s'. handle_pagination_loop env sec (insert (current_url (driver s)) visited) s2
          = Some s'"
        by (rule less.hyps[rotated])
      with go show ?thesis by simp
    qed
  qed
  from handle_pagination_round[of env sec visited s] show ?thesis
  proof
    assume "\<exists>s'. handle_pagination_loop env sec visited s = Some s'"
    then show ?thesis .
  next
    assume "\<exists>h s2. current_url (driver s) \<notin> visited \<and>
      safe_get env h (extract_table env (page_source (driver s)) sec (current_url (driver s)) s)
        = Inr s2 \<and>
      handle_pagination_loop env sec visited s =
        handle_pagination_loop env sec (insert (current_url (driver s)) visited) s2"
    then obtain h s2 where
      get: "safe_get env h
          (extract_table env (page_source (driver s)) sec (current_url (driver s)) s) = Inr s2"
      and go: "handle_pagination_loop env sec visited s =
          handle_pagination_loop env sec (insert (current_url (driver s)) visited) s2"
      by blast
    from land[OF get] have "current_url (driver s2) \<in> U" .
    from inside[OF this] go show ?thesis by simp
  qed
qed


text \<open>
  Claim C1, as amended, for the loops that keep a visited set (\<open>handle_pagination\<close> of
  rec\_scraper.py, rti\_scraper.py and manuals\_scraper.py). The loop ends on every site
  whose navigations can end at finitely many addresses only. And when the pager offers an
  enabled next link whose navigation ends at an address that is in the visited set or is
  the current one, the loop makes exactly this one page load, finds the address in the
  visited set at the top of the next round and ends: the rows are those of the current
  page, the revisited page is not extracted again.
\<close>

theorem handle_pagination_stops_on_revisit:
  "(finite (landing env) \<longrightarrow> (\<exists>s'. handle_pagination env sec start_url s = Some s')) \<and>
   (current_url (driver s) \<notin> visited \<and>
    next_a (page_source (driver s)) = Some next_btn \<and>
    a_class next_btn = Some cls \<and> \<not> contains ''is-disabled'' cls \<and>
    a_href next_btn = Some next_href \<and> next_href \<noteq> [] \<and>
    (site env next_href = Loaded cu p \<or> site env next_href = TimedOut cu p True) \<and>
    cu \<in> insert (current_url (driver s)) visited \<longrightarrow>
    handle_pagination_loop env sec visited s =
      Some ((extract_table env (page_source (driver s)) sec (current_url (driver s)) s)
              \<lparr>log := log s @ [Nav next_href],
               driver := \<lparr>current_url = cu, page_source = p\<rparr>\<rparr>))"
proof (intro conjI impI)
  assume "finite (landing env)"
  then show "\<exists>s'. handle_pagination env sec start_url s = Some s'"
    unfolding handle_pagination_def by (rule handle_pagination_terminates)
next
  let ?s1 = "extract_table env (page_source (driver s)) sec (current_url (driver s)) s"
  let ?s2 = "?s1\<lparr>log := log s @ [Nav next_href], driver := \<lparr>current_url = cu, page_source = p\<rparr>\<rparr>"
  assume a: "current_url (driver s) \<notin> visited \<and>
    next_a (page_source (driver s)) = Some next_btn \<and>
    a_class next_btn = Some cls \<and> \<not> contains ''is-disabled'' cls \<and>
    a_href next_btn = Some next_href \<and> next_href \<noteq> [] \<and>
    (site env next_href = Loaded cu p \<or> site env next_href = TimedOut cu p True) \<and>
    cu \<in> insert (current_url (driver s)) visited"
  then have get: "safe_get env next_href ?s1 = Inr ?s2"
    by (auto simp: safe_get_def Let_def)
  have stop: "handle_pagination_loop env sec (insert (current_url (driver s)) visited) ?s2 = Some ?s2"
    using a by (subst handle_pagination_loop.simps) simp
  show "handle_pagination_loop env sec visited s = Some ?s2"
    using a get stop by (subst handle_pagination_loop.simps) (simp add: Let_def)
qed

text \<open>
  The pager that always offers page 1 again, met by the scraper after its first page
  load: one more page load, then the loop ends.
\<close>

lemma landing_loop_env: "landing loop_env = {''https://doe.gov.in/list?page=1''}"
  by (auto simp: landing_def loop_env_def dead_env_def)

theorem handle_pagination_stops_on_revisit_witness:
  "finite (landing loop_env) \<and>
   current_url (driver (at_page ''https://doe.gov.in/list?page=1'' loop_page :: row scraper)) \<notin> {} \<and>
   site loop_env ''https://doe.gov.in/list?page=1''
     = Loaded ''https://doe.gov.in/list?page=1'' loop_page \<and>
   (\<exists>s'. handle_pagination loop_env ''Main Section'' ''https://doe.gov.in/list''
            (at_page ''https://doe.gov.in/list?page=1'' loop_page :: row scraper) = Some s') \<and>
   handle_pagination_loop loop_env ''Main Section'' {}
       (at_page ''https://doe.gov.in/list?page=1'' loop_page) =
     Some ((at_page ''https://doe.gov.in/list?page=1'' loop_page)
             \<lparr>log := [Nav ''https://doe.gov.in/list?page=1'']\<rparr>)"
proof -
  let ?u = "''https://doe.gov.in/list?page=1''"
  let ?s = "at_page ?u loop_page :: row scraper"
  have h0: "finite (landing loop_env)" by (simp add: landing_loop_env)
  have h1: "current_url (driver ?s) \<notin> {}" by simp
  have h2: "next_a (page_source (driver ?s)) = Some \<lparr>a_class = Some [], a_href = Some ?u\<rparr>"
    by (simp add: at_page_def loop_page_def)
  have h3: "site loop_env ?u = Loaded ?u loop_page"
    by (simp add: loop_env_def dead_env_def)
  have h4: "?u \<in> insert (current_url (driver ?s)) {}" by (simp add: at_page_def)
  have ex: "extract_table loop_env loop_page sec u t = t" for sec u and t :: "row scraper"
    by (simp add: extract_table_def loop_page_def blank_page_def)
  from handle_pagination_stops_on_revisit
    [of loop_env "''Main Section''" "''https://doe.gov.in/list''" ?s "{}"
        "\<lparr>a_class = Some [], a_href = Some ?u\<rparr>" "[]" ?u ?u loop_page]
    h0 h1 h2 h3 h4
  show ?thesis by (simp add: ex at_page_def fresh_def)
qed

subsubsection \<open>The loop without a visited set\<close>

lemma driver_grants_extract_table [simp]:
  "driver (grants_extract_table env soup sec u s) = driver s"
proof -
  have "driver (fold (grants_extract_row env sec u) trs s) = driver s" for trs
    by (induction trs arbitrary: s) (simp_all add: grants_extract_row_def Let_def)
  then show ?thesis by (simp add: grants_extract_table_def split: option.splits)
qed

text \<open>Against the same pager the loop of grants\_scraper.py cannot return.\<close>

lemma grants_handle_pagination_no_return:
  assumes "grants_handle_pagination env sec page_url s = Some r"
  shows "\<not> (env = loop_env \<and> page_source (driver s) = loop_page)"
proof (rule grants_handle_pagination.raw_induct
    [where P = "\<lambda>env sec page_url s r. \<not> (env = loop_env \<and> page_source (driver s) = loop_page)",
      OF _ assms])
  fix f :: "env \<Rightarrow> string \<Rightarrow> url \<Rightarrow> row scraper \<Rightarrow> ((exn \<times> row scraper) + row scraper) option"
    and env sec page_url s r
  assume IH: "\<And>env sec page_url s r. f env sec page_url s = Some r \<Longrightarrow>
      \<not> (env = loop_env \<and> page_source (driver s) = loop_page)"
    and eq: "(let s1 = grants_extract_table env (page_source (driver s)) sec page_url s in
      case next_enabled_a (page_source (driver s)) of
        None \<Rightarrow> Some (Inr s1)
      | Some next_btn \<Rightarrow>
          (case a_href next_btn of
             None \<Rightarrow> Some (Inl (OtherException, s1))
           | Some next_href \<Rightarrow>
               (case safe_get env next_href s1 of
                  Inl x \<Rightarrow> Some (Inl x)
                | Inr s2 \<Rightarrow> f env sec next_href s2))) = Some r"
  show "\<not> (env = loop_env \<and> page_source (driver s) = loop_page)"
  proof
    assume a: "env = loop_env \<and> page_source (driver s) = loop_page"
    let ?u = "''https://doe.gov.in/list?page=1''"
    let ?s1 = "grants_extract_table env (page_source (driver s)) sec page_url s"
    let ?s2 = "?s1\<lparr>log := log ?s1 @ [Nav ?u], driver := \<lparr>current_url = ?u, page_source = loop_page\<rparr>\<rparr>"
    have get: "safe_get env ?u ?s1 = Inr ?s2"
      using a by (simp add: safe_get_def loop_env_def dead_env_def Let_def)
    have "next_enabled_a (page_source (driver s)) = Some \<lparr>a_class = Some [], a_href = Some ?u\<rparr>"
      using a by (simp add: loop_page_def)
    with eq get have "f env sec ?u ?s2 = Some r" by (simp add: Let_def)
    from IH[OF this] a show False by simp
  qed
qed

text \<open>
  Claim C1 as stated fails for grants\_scraper.py: its loop keeps no visited set, and
  against the pager that always offers page 1 again it never returns.
\<close>

theorem grants_pagination_counterexample:
  "grants_handle_pagination loop_env ''Main Section'' ''https://doe.gov.in/list''
     (at_page ''https://doe.gov.in/list?page=1'' loop_page) = None"
proof (cases "grants_handle_pagination loop_env ''Main Section'' ''https://doe.gov.in/list''
     (at_page ''https://doe.gov.in/list?page=1'' loop_page)")
  case None
  then show ?thesis .
next
  case (Some r)
  from grants_handle_pagination_no_return[OF this] show ?thesis
    by (simp add: at_page_def)
qed


subsection \<open>Control flow: when the assets are requested\<close>

subsubsection \<open>Which step adds which events\<close>

lemma is_nav_simps [simp]:
  "is_nav (Nav u)" "\<not> is_nav (HttpGet u)" "\<not> is_nav (CsvWrite f)"
  by (simp_all add: is_nav_def)

lemma is_get_simps [simp]:
  "is_get (HttpGet u)" "\<not> is_get (Nav u)" "\<not> is_get (CsvWrite f)"
  by (simp_all add: is_get_def)

lemma handle_pagination_log:
  assumes "handle_pagination_loop env sec visited s = Some s'"
  shows "\<exists>navs. log s' = log s @ navs \<and> (\<forall>e \<in> set navs. is_nav e)"
proof (rule handle_pagination_loop.raw_induct
    [where P = "\<lambda>env sec visited s s'. \<exists>navs. log s' = log s @ navs \<and> (\<forall>e \<in> set navs. is_nav e)",
      OF _ assms])
  fix f :: "env \<Rightarrow> string \<Rightarrow> url set \<Rightarrow> row scraper \<Rightarrow> row scraper option"
    and env sec visited s s'
  assume IH: "\<And>env sec visited s s'. f env sec visited s = Some s' \<Longrightarrow>
      \<exists>navs. log s' = log s @ navs \<and> (\<forall>e \<in> set navs. is_nav e)"
    and eq: "(let cur = current_url (driver s) in
      if cur \<in> visited then Some s
      else
        let s1 = extract_table env (page_source (driver s)) sec cur s in
        case next_a (page_source (driver s)) of
          None \<Rightarrow> Some s1
        | Some next_btn \<Rightarrow>
            (case a_class next_btn of
               None \<Rightarrow> Some s1
             | Some cls \<Rightarrow>
                 if contains ''is-disabled'' cls then Some s1
                 else
                   (case a_href next_btn of
                      None \<Rightarrow> Some s1
                    | Some next_href \<Rightarrow>
                        if next_href = [] then Some s1
                        else
                          (case safe_get env next_href s1 of
                             Inl (e, s2) \<Rightarrow> Some s2
                           | Inr s2 \<Rightarrow> f env sec (insert cur visited) s2)))) = Some s'"
  let ?s1 = "extract_table env (page_source (driver s)) sec (current_url (driver s)) s"
  from eq consider
      (same) "log s' = log s"
    | (raised) h e where "safe_get env h ?s1 = Inl (e, s')"
    | (further) h s2 where "safe_get env h ?s1 = Inr s2"
        "f env sec (insert (current_url (driver s)) visited) s2 = Some s'"
    by (auto simp: Let_def split: if_splits option.splits sum.splits)
  then show "\<exists>navs. log s' = log s @ navs \<and> (\<forall>e \<in> set navs. is_nav e)"
  proof cases
    case same
    then show ?thesis by simp
  next
    case raised
    from safe_get_raises[OF this] have "log s' = log s @ [Nav h]" by simp
    then show ?thesis by (intro exI[of _ "[Nav h]"]) auto
  next
    case further
    from safe_get_returns[OF further(1)] have "log s2 = log s @ [Nav h]" by auto
    moreover from IH[OF further(2)] obtain navs where
      "log s' = log s2 @ navs" "\<forall>e \<in> set navs. is_nav e" by blast
    ultimately show ?thesis by (intro exI[of _ "Nav h # navs"]) auto
  qed
qed

lemma safe_get_log:
  "safe_get env u s = Inr s' \<Longrightarrow> log s' = log s @ [Nav u]"
  "safe_get env u s = Inl (e, s') \<Longrightarrow> log s' = log s @ [Nav u]"
  using safe_get_returns[of env u s s'] safe_get_raises[of env u s e s'] by auto

lemma scrape_main_and_archive_log:
  assumes "scrape_main_and_archive env s = Some r"
  shows "\<exists>navs s'. (r = Inr s' \<or> (\<exists>e. r = Inl (e, s'))) \<and>
           log s' = log s @ navs \<and> (\<forall>e \<in> set navs. is_nav e)"
proof -
  let ?main = "urljoin env BASE_URL PAGE_PATH"
  show ?thesis
  proof (cases "safe_get env ?main s")
    case (Inl x)
    obtain e s' where x: "x = (e, s')" by (cases x)
    with Inl assms have r: "r = Inl (e, s')" by (simp add: scrape_main_and_archive_def handle_pagination_def Let_def)
    from Inl x have "log s' = log s @ [Nav ?main]" by (simp add: safe_get_log)
    with r show ?thesis by (intro exI[of _ "[Nav ?main]"] exI[of _ s']) auto
  next
    case (Inr s1)
    then have l1: "log s1 = log s @ [Nav ?main]" by (simp add: safe_get_log)
    from Inr assms obtain s2 where hp: "handle_pagination_loop env ''Main Section'' {} s1 = Some s2"
      by (cases "handle_pagination_loop env ''Main Section'' {} s1")
         (auto simp: scrape_main_and_archive_def handle_pagination_def Let_def)
    from handle_pagination_log[OF hp] obtain n2 where
      l2: "log s2 = log s1 @ n2" "\<forall>e \<in> set n2. is_nav e" by blast
    show ?thesis
    proof (cases "archive_href (page_source (driver s2))")
      case None
      with Inr hp assms have "r = Inr s2" by (simp add: scrape_main_and_archive_def handle_pagination_def Let_def)
      with l1 l2 show ?thesis
        by (intro exI[of _ "Nav ?main # n2"] exI[of _ s2]) auto
    next
      case (Some h)
      let ?arch = "urljoin env BASE_URL h"
      show ?thesis
      proof (cases "safe_get env ?arch s2")
        case (Inl x)
        obtain e s' where x: "x = (e, s')" by (cases x)
        with Inl Some Inr hp assms have r: "r = Inl (e, s')"
          by (simp add: scrape_main_and_archive_def handle_pagination_def Let_def)
        from Inl x have "log s' = log s2 @ [Nav ?arch]" by (simp add: safe_get_log)
        with r l1 l2 show ?thesis
          by (intro exI[of _ "Nav ?main # n2 @ [Nav ?arch]"] exI[of _ s']) auto
      next
        case s3: (Inr s3)
        then have l3: "log s3 = log s2 @ [Nav ?arch]" by (simp add: safe_get_log)
        from s3 Some Inr hp assms obtain s4 where
          hp2: "handle_pagination_loop env ''Archive Section'' {} s3 = Some s4" and r: "r = Inr s4"
          by (cases "handle_pagination_loop env ''Archive Section'' {} s3")
             (auto simp: scrape_main_and_archive_def handle_pagination_def Let_def)
        from handle_pagination_log[OF hp2] obtain n4 where
          l4: "log s4 = log s3 @ n4" "\<forall>e \<in> set n4. is_nav e" by blast
        with r l1 l2 l3 show ?thesis
          by (intro exI[of _ "Nav ?main # n2 @ Nav ?arch # n4"] exI[of _ s4]) auto
      qed
    qed
  qed
qed

lemma download_rows_log:
  assumes "download_rows env rs fs lg = (out, fs', lg')"
  shows "\<exists>gets. lg' = lg @ gets \<and> (\<forall>e \<in> set gets. is_get e)"
  using assms
proof (induction rs arbitrary: fs lg out fs' lg')
  case Nil
  then show ?case by simp
next
  case (Cons r rs)
  obtain r1 fs1 lg1 where one: "download_row env r fs lg = (r1, fs1, lg1)"
    by (cases "download_row env r fs lg") auto
  obtain rs2 fs2 lg2 where rest: "download_rows env rs fs1 lg1 = (rs2, fs2, lg2)"
    by (cases "download_rows env rs fs1 lg1") auto
  from Cons.prems one rest have "lg' = lg2" by simp
  moreover from download_row_effect[OF one] obtain g1 where
    "lg1 = lg @ g1" "\<forall>e \<in> set g1. e = HttpGet (pdf_url r)" by blast
  then have "lg1 = lg @ g1" "\<forall>e \<in> set g1. is_get e" by auto
  moreover from Cons.IH[OF rest] obtain g2 where
    "lg2 = lg1 @ g2" "\<forall>e \<in> set g2. is_get e" by blast
  ultimately show ?case by (intro exI[of _ "g1 @ g2"]) auto
qed

text \<open>
  Claim C9, as amended, for the scrapers whose \<open>run\<close> is scrape, then
  \<open>download_pdfs\<close>, then \<open>save_csv\<close> (rec\_scraper.py and the scrapers built like
  it). Whenever \<open>run\<close> returns, what it added to the trace is a block of page loads,
  then a block of asset requests, then the one CSV write: no asset is requested before
  the last page has been loaded and extracted, and the file is written after the last
  request. When a page load outside the pagination loop raises, the trace holds page
  loads only.
\<close>

theorem run_downloads_after_pagination:
  assumes "run env s = Some r"
  shows "case r of
           Inr s' \<Rightarrow>
             \<exists>navs gets out.
               log s' = log s @ navs @ gets @ [CsvWrite out] \<and>
               (\<forall>e \<in> set navs. is_nav e) \<and> (\<forall>e \<in> set gets. is_get e)
         | Inl (e, s') \<Rightarrow>
             \<exists>navs. log s' = log s @ navs \<and> (\<forall>e \<in> set navs. is_nav e)"
proof -
  from assms obtain r1 where sc: "scrape_main_and_archive env s = Some r1"
    by (cases "scrape_main_and_archive env s") (auto simp: run_def)
  from scrape_main_and_archive_log[OF sc] obtain navs s1 where
    r1: "r1 = Inr s1 \<or> (\<exists>e. r1 = Inl (e, s1))"
    and l1: "log s1 = log s @ navs" "\<forall>e \<in> set navs. is_nav e" by blast
  from r1 show ?thesis
  proof
    assume "\<exists>e. r1 = Inl (e, s1)"
    then obtain e where "r1 = Inl (e, s1)" by blast
    with sc assms have "r = Inl (e, quit s1)" by (simp add: run_def)
    with l1 show ?thesis by (auto simp: quit_def)
  next
    assume ok: "r1 = Inr s1"
    obtain out fs lg where d: "download_rows env (rows s1) (files s1) (log s1) = (out, fs, lg)"
      by (cases "download_rows env (rows s1) (files s1) (log s1)") auto
    from download_rows_log[OF d] obtain gets where
      g: "lg = log s1 @ gets" "\<forall>e \<in> set gets. is_get e" by blast
    from ok sc assms have "r = Inr (quit (save_csv env (download_pdfs env s1)))"
      by (simp add: run_def)
    moreover have "log (quit (save_csv env (download_pdfs env s1))) =
        lg @ [CsvWrite (path_join OUT_DIR (''recruitment_rules_'' @ now env @ ''.csv''))]"
      by (simp add: quit_def save_csv_def download_pdfs_def d Let_def)
    ultimately show ?thesis using l1 g by auto
  qed
qed

lemma files_extract_table [simp]: "files (extract_table env soup sec u s) = files s"
proof -
  have "files (fold (extract_row env hs sec u) trs s) = files s" for hs trs
    by (induction trs arbitrary: s) (simp_all add: extract_row_def Let_def)
  then show ?thesis by (simp add: extract_table_def split: option.splits)
qed

text \<open>
  The end-to-end scenario: two page loads, then the one request for the linked file,
  then the CSV write.
\<close>

lemma run_two_pages:
  "trace_of (run two_page_env fresh) =
     Some [Nav ''https://doe.gov.in/recruitment-rules'',
           Nav ''https://doe.gov.in/recruitment-rules?page=1'',
           HttpGet ''https://doe.gov.in/files/a.pdf'',
           CsvWrite ''output/recruitment_rules_20250101_000000.csv'']"
proof -
  let ?main = "''https://doe.gov.in/recruitment-rules''"
  let ?p2 = "''https://doe.gov.in/recruitment-rules?page=1''"
  let ?a = "''https://doe.gov.in/files/a.pdf''"
  define s1 :: "row scraper" where "s1 = (at_page ?main page_one)\<lparr>log := [Nav ?main]\<rparr>"
  define s1x where "s1x = extract_table two_page_env page_one ''Main Section'' ?main s1"
  define s2 where "s2 = s1x\<lparr>log := [Nav ?main, Nav ?p2],
                               driver := \<lparr>current_url = ?p2, page_source = page_two\<rparr>\<rparr>"
  define s2x where "s2x = extract_table two_page_env page_two ''Main Section'' ?p2 s2"
  have j: "urljoin two_page_env BASE_URL PAGE_PATH = ?main"
    by (simp add: two_page_env_def dead_env_def BASE_URL_def PAGE_PATH_def)
  have g1: "safe_get two_page_env ?main (fresh :: row scraper) = Inr s1"
    by (simp add: safe_get_def two_page_env_def dead_env_def fresh_def at_page_def Let_def s1_def)
  have d1: "driver s1 = \<lparr>current_url = ?main, page_source = page_one\<rparr>" "log s1 = [Nav ?main]"
    by (simp_all add: s1_def at_page_def)
  have n1: "next_a page_one = Some \<lparr>a_class = Some [], a_href = Some ?p2\<rparr>"
    by (simp add: page_one_def)
  have g2: "safe_get two_page_env ?p2 s1x = Inr s2"
    by (simp add: safe_get_def two_page_env_def dead_env_def Let_def s2_def s1x_def d1)
  have d2: "driver s2 = \<lparr>current_url = ?p2, page_source = page_two\<rparr>"
    by (simp add: s2_def)
  have n2: "next_a page_two = Some \<lparr>a_class = Some ''is-disabled'', a_href = None\<rparr>"
    by (simp add: page_two_def)
  have hp2: "handle_pagination_loop two_page_env ''Main Section'' {?main} s2 = Some s2x"
    by (subst handle_pagination_loop.simps) (simp add: d2 n2 Let_def s2x_def)
  have hp1: "handle_pagination_loop two_page_env ''Main Section'' {} s1 = Some s2x"
    by (subst handle_pagination_loop.simps) (simp add: d1 n1 Let_def s1x_def[symmetric] g2 hp2)
  have arch: "archive_href (page_source (driver s2x)) = None"
    by (simp add: s2x_def d2 page_two_def blank_page_def)
  have sc: "scrape_main_and_archive two_page_env fresh = Some (Inr s2x)"
    by (simp add: scrape_main_and_archive_def handle_pagination_def j g1 hp1 arch Let_def)
  have l2: "log s2x = [Nav ?main, Nav ?p2]" "files s2x = Map.empty"
    by (simp_all add: s2x_def s2_def s1x_def s1_def at_page_def fresh_def)
  have urls: "map pdf_url (rows s2x) = [?a, [], [] ]"
    by (simp add: s2x_def s2_def s1x_def s1_def at_page_def fresh_def extract_table_def
        extract_row_def page_one_def page_two_def blank_page_def headers_of_def resolve_pdf_def
        two_page_env_def dead_env_def BASE_URL_def Let_def)
  then obtain r1 r2 r3 where rs: "rows s2x = [r1, r2, r3]"
    and u: "pdf_url r1 = ?a" "pdf_url r2 = []" "pdf_url r3 = []"
    by (auto simp: map_eq_Cons_conv)
  have w: "wanted ?a" by (simp add: wanted_def lower_def lower_char_def endswith_def)
  have dd: "dest ?a = ''pdfs/a.pdf''" by (simp add: dest_eq basename_def split_query_def)
  have h: "http two_page_env ?a = Response 200 ''%PDF a''"
    by (simp add: two_page_env_def dead_env_def)
  have dk: "disk two_page_env p d = Written" for p d
    by (simp add: two_page_env_def dead_env_def)
  have dl1: "download_row two_page_env r1 Map.empty lg =
      (r1\<lparr>local_pdf_path := ''pdfs/a.pdf''\<rparr>, [''pdfs/a.pdf'' \<mapsto> Bytes ''%PDF a''], lg @ [HttpGet ?a])" for lg
    using download_row_ok[of r1 Map.empty two_page_env "''%PDF a''" lg] w dd h u dk
    by (simp add: path_exists_def PDF_DIR_def)
  have dl2: "download_row two_page_env r2 fs lg = (r2, fs, lg)"
    and dl3: "download_row two_page_env r3 fs lg = (r3, fs, lg)" for fs lg
    using u by (simp_all add: download_row_skip wanted_def)
  have "log (download_pdfs two_page_env s2x) = [Nav ?main, Nav ?p2, HttpGet ?a]"
    by (simp add: download_pdfs_def rs l2 dl1 dl2 dl3)
  then have "log (quit (save_csv two_page_env (download_pdfs two_page_env s2x))) =
      [Nav ?main, Nav ?p2, HttpGet ?a, CsvWrite ''output/recruitment_rules_20250101_000000.csv'']"
    by (simp add: quit_def save_csv_def Let_def path_join_def OUT_DIR_def two_page_env_def dead_env_def)
  then show ?thesis by (simp add: trace_of_def run_def sc)
qed

theorem run_downloads_after_pagination_witness:
  "\<exists>r. run two_page_env fresh = Some r \<and>
     (case r of
        Inr s' \<Rightarrow>
          \<exists>navs gets out.
            log s' = log (fresh :: row scraper) @ navs @ gets @ [CsvWrite out] \<and>
            (\<forall>e \<in> set navs. is_nav e) \<and> (\<forall>e \<in> set gets. is_get e)
      | Inl (e, s') \<Rightarrow>
          \<exists>navs. log s' = log (fresh :: row scraper) @ navs \<and> (\<forall>e \<in> set navs. is_nav e))"
proof -
  from run_two_pages obtain r where h: "run two_page_env fresh = Some r"
    by (auto simp: trace_of_def)
  from h run_downloads_after_pagination [OF h] show ?thesis by blast
qed


subsubsection \<open>Downloads inside \<open>parse_table\<close>\<close>

text \<open>
  What \<open>parse_table\<close> of auto\_scraper.py does to the world for one row: nothing for a
  row of fewer than five cells, and otherwise what \<open>download_pdf\<close> does for the link
  in the fifth cell.
\<close>

lemma auto_parse_row_world:
  "log (auto_parse_row env page_url lt hs tr s) =
     (if length (cells tr) < 5 then log s
      else snd (snd (auto_download_pdf env
             (case dl_link tr of None \<Rightarrow> [] | Some (h, t) \<Rightarrow> urljoin env BASE_URL h)
             (cells tr ! 1) lt (files s) (log s))))"
  "files (auto_parse_row env page_url lt hs tr s) =
     (if length (cells tr) < 5 then files s
      else fst (snd (auto_download_pdf env
             (case dl_link tr of None \<Rightarrow> [] | Some (h, t) \<Rightarrow> urljoin env BASE_URL h)
             (cells tr ! 1) lt (files s) (log s))))"
  "driver (auto_parse_row env page_url lt hs tr s) = driver s"
  by (simp_all add: auto_parse_row_def Let_def split: prod.splits)

lemma slugify_rules:
  "slugify ''Rules A'' = ''Rules_A''" "slugify ''Rules C'' = ''Rules_C''"
  by (simp_all add: slugify_def strip_chars_def is_space_def is_word_def is_ascii_word_def Let_def)

text \<open>
  Claim C9 as stated fails for auto\_scraper.py: \<open>paginate_listing\<close> requests the file
  of the first page's row before it loads the second page.
\<close>

theorem paginate_listing_downloads_inline_counterexample:
  "trace_of (paginate_listing two_page_env ''https://doe.gov.in/recruitment-rules'' ''Active'' fresh) =
     Some [Nav ''https://doe.gov.in/recruitment-rules'',
           HttpGet ''https://doe.gov.in/files/a.pdf'',
           Nav ''https://doe.gov.in/recruitment-rules?page=1'',
           HttpGet ''https://doe.gov.in/files/c.pdf'']"
proof -
  let ?main = "''https://doe.gov.in/recruitment-rules''"
  let ?p2 = "''https://doe.gov.in/recruitment-rules?page=1''"
  let ?a = "''https://doe.gov.in/files/a.pdf''"
  let ?c = "''https://doe.gov.in/files/c.pdf''"
  let ?fa = "''pdfs/autonomous_bodies_Active_Rules_A.pdf''"
  let ?fc = "''pdfs/autonomous_bodies_Active_Rules_C.pdf''"
  define s1 :: "drow scraper" where "s1 = (at_page ?main page_one)\<lparr>log := [Nav ?main]\<rparr>"
  define s1x where "s1x = parse_table two_page_env page_one ?main ''Active'' s1"
  define s2 where "s2 = s1x\<lparr>log := log s1x @ [Nav ?p2],
                               driver := \<lparr>current_url = ?p2, page_source = page_two\<rparr>\<rparr>"
  define s2x where "s2x = parse_table two_page_env page_two ?p2 ''Active'' s2"
  have al: "after_load two_page_env u t = Inr t" for u and t :: "drow scraper"
    by (simp add: after_load_def two_page_env_def dead_env_def)
  have st: "site two_page_env ?main = Loaded ?main page_one"
    "site two_page_env ?p2 = Loaded ?p2 page_two"
    by (simp_all add: two_page_env_def dead_env_def)
  have g1: "safe_get_wait two_page_env ?main (fresh :: drow scraper) = Inr s1"
    by (simp add: safe_get_wait_def st al Let_def fresh_def at_page_def s1_def)
  have g2: "safe_get_wait two_page_env ?p2 s1x = Inr s2"
    by (simp add: safe_get_wait_def st al Let_def s2_def)
  have ha: "http two_page_env ?a = Response 200 ''%PDF a''"
    and hc: "http two_page_env ?c = Response 200 ''%PDF c''"
    by (simp_all add: two_page_env_def dead_env_def)
  have dk: "disk two_page_env p d = Written" for p d
    by (simp add: two_page_env_def dead_env_def)
  have da: "auto_download_pdf two_page_env ?a ''Rules A'' ''Active'' Map.empty lg =
      (?fa, [?fa \<mapsto> Bytes ''%PDF a''], lg @ [HttpGet ?a])" for lg
    by (simp add: auto_download_pdf_def slugify_rules ha dk path_join_def PDF_DIR_def
        path_exists_def is_error_status_def Let_def)
  have dc: "auto_download_pdf two_page_env ?c ''Rules C'' ''Active'' [?fa \<mapsto> Bytes ''%PDF a''] lg =
      (?fc, [?fa \<mapsto> Bytes ''%PDF a'', ?fc \<mapsto> Bytes ''%PDF c''], lg @ [HttpGet ?c])" for lg
    by (simp add: auto_download_pdf_def slugify_rules hc dk path_join_def PDF_DIR_def
        path_exists_def is_error_status_def Let_def)
  have dn: "auto_download_pdf two_page_env [] m lt fs lg = ([], fs, lg)" for m lt fs lg
    by (simp add: auto_download_pdf_def)
  have uj: "urljoin two_page_env BASE_URL ''/files/a.pdf'' = ?a"
    "urljoin two_page_env BASE_URL ''/files/c.pdf'' = ?c"
    "urljoin two_page_env BASE_URL ''/recruitment-rules?page=1'' = ?p2"
    by (simp_all add: two_page_env_def dead_env_def BASE_URL_def)
  have w1: "log s1x = [Nav ?main, HttpGet ?a]" "files s1x = [?fa \<mapsto> Bytes ''%PDF a'']"
    "driver s1x = \<lparr>current_url = ?main, page_source = page_one\<rparr>"
    by (simp_all add: s1x_def parse_table_def page_one_def blank_page_def auto_parse_row_world
        uj da dn s1_def at_page_def fresh_def)
  have w2: "log s2x = [Nav ?main, HttpGet ?a, Nav ?p2, HttpGet ?c]"
    by (simp add: s2x_def parse_table_def page_two_def blank_page_def auto_parse_row_world
        uj dc s2_def w1)
  have d1: "driver s1 = \<lparr>current_url = ?main, page_source = page_one\<rparr>"
    by (simp add: s1_def at_page_def)
  have d2: "driver s2 = \<lparr>current_url = ?p2, page_source = page_two\<rparr>"
    by (simp add: s2_def)
  have pg: "pager page_one = PagerNext (Some ''/recruitment-rules?page=1'')"
    "pager page_two = PagerNoNext"
    by (simp_all add: page_one_def page_two_def blank_page_def)
  have hp2: "paginate_listing_loop two_page_env ''Active'' {?main} ?p2 s1x = Some (Inr s2x)"
    by (subst paginate_listing_loop.simps) (simp add: g2 d2 pg Let_def s2x_def)
  have hp1: "paginate_listing_loop two_page_env ''Active'' {} ?main fresh = Some (Inr s2x)"
    by (subst paginate_listing_loop.simps) (simp add: g1 d1 pg uj Let_def s1x_def[symmetric] hp2)
  show ?thesis by (simp add: trace_of_def paginate_listing_def hp1 w2)
qed

end
